theory Spec2Isabelle
  imports Complex_Main "HOL-Library.Multiset" "HOL-Library.Log_Nat"
begin

section \<open>Transaction size estimator (src/utils/txSizeEstimator.ts)\<close>

text \<open>
  All fields of the estimator are byte counts and item counts: they start at zero and
  are only ever incremented by sizes, so they are modelled as natural numbers. The
  value of a \<open>VSize\<close> is a \<open>bigint\<close>, modelled as an unbounded integer.
\<close>

record VSize =
  "value" :: int
  fee :: "int \<Rightarrow> int"

definition getVarIntSize :: "nat \<Rightarrow> nat" where
  "getVarIntSize n =
     (if n < 0xfd then 1
      else if n < 0xffff then 3
      else if n < 0xffffffff then 5
      else 9)"

definition P2PKH_SCRIPT_SIG_SIZE :: nat where "P2PKH_SCRIPT_SIG_SIZE = 1 + 73 + 1 + 33"
definition INPUT_SIZE :: nat where "INPUT_SIZE = 32 + 4 + 1 + 4"
definition BASE_CONTROL_BLOCK_SIZE :: nat where "BASE_CONTROL_BLOCK_SIZE = 1 + 32"
definition OUTPUT_SIZE :: nat where "OUTPUT_SIZE = 8 + 1"
definition P2WPKH_OUTPUT_SIZE :: nat where "P2WPKH_OUTPUT_SIZE = 1 + 1 + 20"
definition BASE_TX_SIZE :: nat where "BASE_TX_SIZE = 8 + 2"
definition WITNESS_HEADER_SIZE :: nat where "WITNESS_HEADER_SIZE = 2"
definition WITNESS_SCALE_FACTOR :: nat where "WITNESS_SCALE_FACTOR = 4"
definition P2TR_OUTPUT_SIZE :: nat where "P2TR_OUTPUT_SIZE = 1 + 1 + 32"

lemmas estimator_constants =
  P2PKH_SCRIPT_SIG_SIZE_def INPUT_SIZE_def BASE_CONTROL_BLOCK_SIZE_def OUTPUT_SIZE_def
  P2WPKH_OUTPUT_SIZE_def BASE_TX_SIZE_def WITNESS_HEADER_SIZE_def WITNESS_SCALE_FACTOR_def
  P2TR_OUTPUT_SIZE_def

record TxWeightEstimator =
  hasWitness :: bool
  inputCount :: nat
  outputCount :: nat
  inputSize :: nat
  inputWitnessSize :: nat
  outputSize :: nat

definition create :: TxWeightEstimator where
  "create = \<lparr>hasWitness = False, inputCount = 0, outputCount = 0, inputSize = 0,
              inputWitnessSize = 0, outputSize = 0\<rparr>"

definition addP2AInput :: "TxWeightEstimator \<Rightarrow> TxWeightEstimator" where
  "addP2AInput this =
     this\<lparr>inputCount := inputCount this + 1,
          inputSize := inputSize this + INPUT_SIZE\<rparr>"

definition addKeySpendInput :: "bool \<Rightarrow> TxWeightEstimator \<Rightarrow> TxWeightEstimator" where
  "addKeySpendInput isDefault this =
     this\<lparr>inputCount := inputCount this + 1,
          inputWitnessSize := inputWitnessSize this + (64 + 1 + (if isDefault then 0 else 1)),
          inputSize := inputSize this + INPUT_SIZE,
          hasWitness := True\<rparr>"

definition addP2PKHInput :: "TxWeightEstimator \<Rightarrow> TxWeightEstimator" where
  "addP2PKHInput this =
     this\<lparr>inputCount := inputCount this + 1,
          inputWitnessSize := inputWitnessSize this + 1,
          inputSize := inputSize this + (INPUT_SIZE + P2PKH_SCRIPT_SIG_SIZE)\<rparr>"

definition addTapscriptInput ::
  "nat \<Rightarrow> nat \<Rightarrow> nat \<Rightarrow> TxWeightEstimator \<Rightarrow> TxWeightEstimator" where
  "addTapscriptInput leafWitnessSize leafScriptSize leafControlBlockSize this =
     (let controlBlockWitnessSize =
            1 + BASE_CONTROL_BLOCK_SIZE + 1 + leafScriptSize + 1 + leafControlBlockSize
      in this\<lparr>inputCount := inputCount this + 1,
               inputWitnessSize :=
                 inputWitnessSize this + (leafWitnessSize + 1 + controlBlockWitnessSize),
               inputSize := inputSize this + INPUT_SIZE,
               hasWitness := True\<rparr>)"

definition addP2WPKHOutput :: "TxWeightEstimator \<Rightarrow> TxWeightEstimator" where
  "addP2WPKHOutput this =
     this\<lparr>outputCount := outputCount this + 1,
          outputSize := outputSize this + (OUTPUT_SIZE + P2WPKH_OUTPUT_SIZE)\<rparr>"

definition addP2TROutput :: "TxWeightEstimator \<Rightarrow> TxWeightEstimator" where
  "addP2TROutput this =
     this\<lparr>outputCount := outputCount this + 1,
          outputSize := outputSize this + (OUTPUT_SIZE + P2TR_OUTPUT_SIZE)\<rparr>"

text \<open>
  \<open>addOutputAddress\<close> decodes the address with the external address library and then
  charges the output by the length of its script. \<open>addOutputScript\<close> is the part after
  the decoding, for a script of \<open>scriptLen\<close> bytes; the decoder is a parameter that
  either throws or gives the script length of the address.
\<close>

definition addOutputScript :: "nat \<Rightarrow> TxWeightEstimator \<Rightarrow> TxWeightEstimator" where
  "addOutputScript scriptLen this =
     this\<lparr>outputCount := outputCount this + 1,
          outputSize := outputSize this + (8 + getVarIntSize scriptLen + scriptLen)\<rparr>"

definition addOutputAddress ::
  "(string \<Rightarrow> 'e + nat) \<Rightarrow> string \<Rightarrow> TxWeightEstimator \<Rightarrow> 'e + TxWeightEstimator" where
  "addOutputAddress decode address this =
     (case decode address of
        Inl e \<Rightarrow> Inl e
      | Inr scriptLen \<Rightarrow> Inr (addOutputScript scriptLen this))"

text \<open>The module-level helper \<open>vsize(weight)\<close>: weight / 4, rounded up.\<close>

definition vsize_of_weight :: "nat \<Rightarrow> VSize" where
  "vsize_of_weight weight =
     (let v = \<lceil>(of_nat weight :: rat) / of_nat WITNESS_SCALE_FACTOR\<rceil>
      in \<lparr>value = v, fee = (\<lambda>feeRate. feeRate * v)\<rparr>)"

text \<open>The method \<open>TxWeightEstimator.vsize()\<close>.\<close>

definition txWeight :: "TxWeightEstimator \<Rightarrow> nat" where
  "txWeight this =
     (let inputCountSize = getVarIntSize (inputCount this);
          outputCountSize = getVarIntSize (outputCount this);
          txSizeStripped =
            BASE_TX_SIZE + inputCountSize + inputSize this + outputCountSize + outputSize this;
          weight = txSizeStripped * WITNESS_SCALE_FACTOR
      in if hasWitness this
         then weight + (WITNESS_HEADER_SIZE + inputWitnessSize this)
         else weight)"

definition vsize :: "TxWeightEstimator \<Rightarrow> VSize" where
  "vsize this = vsize_of_weight (txWeight this)"

subsection \<open>Sequences of estimator operations\<close>

datatype estimator_op =
    P2AInput
  | KeySpendInput bool
  | P2PKHInput
  | TapscriptInput nat nat nat
  | P2WPKHOutput
  | P2TROutput
  | OutputScript nat

fun apply_op :: "estimator_op \<Rightarrow> TxWeightEstimator \<Rightarrow> TxWeightEstimator" where
  "apply_op P2AInput = addP2AInput"
| "apply_op (KeySpendInput isDefault) = addKeySpendInput isDefault"
| "apply_op P2PKHInput = addP2PKHInput"
| "apply_op (TapscriptInput w s c) = addTapscriptInput w s c"
| "apply_op P2WPKHOutput = addP2WPKHOutput"
| "apply_op P2TROutput = addP2TROutput"
| "apply_op (OutputScript n) = addOutputScript n"

definition run_ops :: "estimator_op list \<Rightarrow> TxWeightEstimator" where
  "run_ops ops = fold apply_op ops create"

text \<open>
  The quantities the specification names, read off the list of operations alone:
  how many inputs and outputs were added, their non-witness bytes, the witness bytes,
  and whether some input marked the witness-present flag.
\<close>

fun is_input :: "estimator_op \<Rightarrow> bool" where
  "is_input P2AInput = True"
| "is_input (KeySpendInput _) = True"
| "is_input P2PKHInput = True"
| "is_input (TapscriptInput _ _ _) = True"
| "is_input _ = False"

fun marks_witness :: "estimator_op \<Rightarrow> bool" where
  "marks_witness (KeySpendInput _) = True"
| "marks_witness (TapscriptInput _ _ _) = True"
| "marks_witness _ = False"

fun input_bytes :: "estimator_op \<Rightarrow> nat" where
  "input_bytes P2AInput = 41"
| "input_bytes (KeySpendInput _) = 41"
| "input_bytes P2PKHInput = 41 + 108"
| "input_bytes (TapscriptInput _ _ _) = 41"
| "input_bytes _ = 0"

fun output_bytes :: "estimator_op \<Rightarrow> nat" where
  "output_bytes P2WPKHOutput = 8 + 1 + 22"
| "output_bytes P2TROutput = 8 + 1 + 34"
| "output_bytes (OutputScript n) = 8 + getVarIntSize n + n"
| "output_bytes _ = 0"

fun witness_bytes :: "estimator_op \<Rightarrow> nat" where
  "witness_bytes (KeySpendInput isDefault) = (if isDefault then 65 else 66)"
| "witness_bytes P2PKHInput = 1"
| "witness_bytes (TapscriptInput w s c) = w + 1 + (1 + 33 + 1 + s + 1 + c)"
| "witness_bytes _ = 0"

primrec some_marks_witness :: "estimator_op list \<Rightarrow> bool" where
  "some_marks_witness [] = False"
| "some_marks_witness (x # xs) = (marks_witness x \<or> some_marks_witness xs)"

definition strippedSize :: "estimator_op list \<Rightarrow> nat" where
  "strippedSize ops =
     10 + getVarIntSize (length (filter is_input ops)) + sum_list (map input_bytes ops)
        + getVarIntSize (length (filter (\<lambda>x. \<not> is_input x) ops))
        + sum_list (map output_bytes ops)"

definition spec_weight :: "estimator_op list \<Rightarrow> nat" where
  "spec_weight ops =
     strippedSize ops * 4
       + (if some_marks_witness ops then 2 + sum_list (map witness_bytes ops) else 0)"

section \<open>JavaScript numbers\<close>

text \<open>
  Amounts and fee rates that reach the wallet from its callers and from the provider are
  JavaScript numbers, that is IEEE 754 doubles. A number is \<open>NaN\<close>, an infinity or a finite
  value, given by the rational it stands for. Comparisons are exact, and comparisons with
  \<open>NaN\<close> are false; signed zeros are not distinguished. The result of an addition, a
  subtraction or a multiplication is rounded to the nearest double (\<open>toDouble\<close>).
\<close>

datatype number = NaN | PosInfinity | NegInfinity | Finite rat

abbreviation Number :: "int \<Rightarrow> number" where
  "Number i \<equiv> Finite (of_int i)"

fun isNaN :: "number \<Rightarrow> bool" where
  "isNaN NaN = True"
| "isNaN _ = False"

fun num_lt :: "number \<Rightarrow> number \<Rightarrow> bool" where
  "num_lt NaN _ = False"
| "num_lt _ NaN = False"
| "num_lt (Finite a) (Finite b) = (a < b)"
| "num_lt NegInfinity NegInfinity = False"
| "num_lt NegInfinity _ = True"
| "num_lt PosInfinity _ = False"
| "num_lt (Finite _) PosInfinity = True"
| "num_lt (Finite _) NegInfinity = False"

definition num_gt :: "number \<Rightarrow> number \<Rightarrow> bool" where
  "num_gt a b = num_lt b a"

definition num_le :: "number \<Rightarrow> number \<Rightarrow> bool" where
  "num_le a b = (\<not> isNaN a \<and> \<not> isNaN b \<and> \<not> num_lt b a)"

definition num_ge :: "number \<Rightarrow> number \<Rightarrow> bool" where
  "num_ge a b = num_le b a"

definition num_eq :: "number \<Rightarrow> number \<Rightarrow> bool" where
  "num_eq a b = (\<not> isNaN a \<and> \<not> isNaN b \<and> a = b)"

subsection \<open>Rounding to the nearest double\<close>

text \<open>
  A double has a significand of 53 bits. For \<open>x > 0\<close> with \<open>2^k \<le> x < 2^(k+1)\<close> the
  doubles around \<open>x\<close> are the multiples of \<open>2^e\<close> with \<open>e = k - 52\<close>, and never finer than
  \<open>2^(-1074)\<close> (the subnormal numbers); \<open>x\<close> is rounded to the nearest multiple, a tie
  going to the even one, and a result of \<open>2^1024\<close> or more is an infinity.
\<close>

definition pow2 :: "int \<Rightarrow> rat" where
  "pow2 e = (if 0 \<le> e then 2 ^ nat e else 1 / 2 ^ nat (- e))"

text \<open>\<open>floor_log2 x\<close> is the \<open>k\<close> with \<open>2^k \<le> x < 2^(k+1)\<close>, for \<open>x > 0\<close>.\<close>

definition floor_log2 :: "rat \<Rightarrow> int" where
  "floor_log2 x =
     (if 1 \<le> x then bitlen \<lfloor>x\<rfloor> - 1 else - bitlen (\<lceil>1 / x\<rceil> - 1))"

definition round_half_even :: "rat \<Rightarrow> int" where
  "round_half_even x =
     (let f = \<lfloor>x\<rfloor>; d = x - of_int f
      in if d < 1 / 2 then f
         else if 1 / 2 < d then f + 1
         else if even f then f else f + 1)"

definition round_double :: "rat \<Rightarrow> number" where
  "round_double x =
     (if x = 0 then Finite 0
      else
        (let a = \<bar>x\<bar>;
             e = max (floor_log2 a - 52) (- 1074);
             m = round_half_even (a / pow2 e);
             y = of_int m * pow2 e
         in if 2 ^ 1024 \<le> y then (if 0 < x then PosInfinity else NegInfinity)
            else Finite (if 0 < x then y else - y)))"

text \<open>
  The double of an exact result. A result that is an integer is taken as it is: the
  integers of the program are counts of bytes and of satoshis, far below \<open>2^53\<close>, and are
  doubles themselves.
\<close>

definition toDouble :: "rat \<Rightarrow> number" where
  "toDouble x = (if x = of_int \<lfloor>x\<rfloor> then Finite x else round_double x)"

subsection \<open>Arithmetic\<close>

fun num_neg :: "number \<Rightarrow> number" where
  "num_neg NaN = NaN"
| "num_neg PosInfinity = NegInfinity"
| "num_neg NegInfinity = PosInfinity"
| "num_neg (Finite a) = Finite (- a)"

fun num_add :: "number \<Rightarrow> number \<Rightarrow> number" where
  "num_add NaN _ = NaN"
| "num_add _ NaN = NaN"
| "num_add (Finite a) (Finite b) = toDouble (a + b)"
| "num_add PosInfinity NegInfinity = NaN"
| "num_add NegInfinity PosInfinity = NaN"
| "num_add PosInfinity _ = PosInfinity"
| "num_add NegInfinity _ = NegInfinity"
| "num_add (Finite _) b = b"

definition num_sub :: "number \<Rightarrow> number \<Rightarrow> number" where
  "num_sub a b = num_add a (num_neg b)"

fun num_mul :: "number \<Rightarrow> number \<Rightarrow> number" where
  "num_mul NaN _ = NaN"
| "num_mul _ NaN = NaN"
| "num_mul (Finite a) (Finite b) = toDouble (a * b)"
| "num_mul (Finite a) b =
     (if a = 0 then NaN else if 0 < a then b else num_neg b)"
| "num_mul a (Finite b) =
     (if b = 0 then NaN else if 0 < b then a else num_neg a)"
| "num_mul a b = (if a = b then PosInfinity else NegInfinity)"

fun num_ceil :: "number \<Rightarrow> number" where
  "num_ceil (Finite a) = Number \<lceil>a\<rceil>"
| "num_ceil a = a"

text \<open>\<open>!x\<close> for a number that may be \<open>undefined\<close>: true for \<open>undefined\<close>, \<open>NaN\<close> and 0.\<close>

fun falsy :: "number option \<Rightarrow> bool" where
  "falsy None = True"
| "falsy (Some NaN) = True"
| "falsy (Some (Finite a)) = (a = 0)"
| "falsy (Some _) = False"

section \<open>Errors\<close>

text \<open>
  Every \<open>throw\<close> of the program, and every exception of a collaborator, is a value of
  this type. \<open>BigIntRangeError\<close> is the \<open>RangeError\<close> of \<open>BigInt(x)\<close> on a number that is
  not an integer; \<open>ProviderError\<close> and \<open>LibraryError\<close> carry whatever the explorer, the
  indexer, the signer or the transaction library threw.
\<close>

datatype provider_failure = NotFound | NetworkFailure | MalformedResponse

datatype error =
    TargetAmountIsNaN
  | TargetAmountIsNegative
  | InsufficientFunds
  | BigIntRangeError
  | FeeEstimationCouldNotConverge
  | InvalidFee
  | TxNotFound string
  | InputNotFound
  | TapKeySigNotFound
  | NoVtxosToCompleteUnroll
  | VtxoNotFullyUnrolled string nat
  | TxNotConfirmed string
  | NoAvailableExitPath string nat
  | SpendingLeafNotFound string nat
  | FeeGreaterThanTotalAmount
  | ProviderError provider_failure
  | LibraryError string

text \<open>\<open>BigInt(x)\<close> for a number \<open>x\<close>.\<close>

fun BigInt :: "number \<Rightarrow> error + int" where
  "BigInt (Finite a) = (if a = of_int \<lfloor>a\<rfloor> then Inr \<lfloor>a\<rfloor> else Inl BigIntRangeError)"
| "BigInt _ = Inl BigIntRangeError"

section \<open>Coin selection (selectCoins)\<close>

record Outpoint =
  txid :: string
  vout :: nat

text \<open>A coin is an outpoint with its value in satoshis, an integer.\<close>

record Coin = Outpoint +
  "value" :: int

record Selection =
  inputs :: "Coin list"
  changeAmount :: int

text \<open>
  The selection loop: push the coin, add its value, and leave the loop as soon as the
  stopping rule holds. It returns the selected coins and their summed value.
\<close>

definition stopping_rule :: "bool \<Rightarrow> int \<Rightarrow> number \<Rightarrow> bool" where
  "stopping_rule forceChange selectedAmount targetAmount =
     (if forceChange
      then num_gt (Number selectedAmount) targetAmount
      else num_ge (Number selectedAmount) targetAmount)"

fun select_loop ::
  "bool \<Rightarrow> number \<Rightarrow> Coin list \<Rightarrow> Coin list \<Rightarrow> int \<Rightarrow> Coin list \<times> int" where
  "select_loop forceChange targetAmount [] selectedCoins selectedAmount =
     (selectedCoins, selectedAmount)"
| "select_loop forceChange targetAmount (coin # rest) selectedCoins selectedAmount =
     (let selectedCoins' = selectedCoins @ [coin];
          selectedAmount' = selectedAmount + Coin.value coin
      in if stopping_rule forceChange selectedAmount' targetAmount
         then (selectedCoins', selectedAmount')
         else select_loop forceChange targetAmount rest selectedCoins' selectedAmount')"

text \<open>
  \<open>[...coins].sort((a, b) => b.value - a.value)\<close>: a stable sort, descending by value.
\<close>

definition sortedCoins :: "Coin list \<Rightarrow> Coin list" where
  "sortedCoins coins = sort_key (\<lambda>c. - Coin.value c) coins"

definition selectCoins :: "Coin list \<Rightarrow> number \<Rightarrow> bool \<Rightarrow> error + Selection" where
  "selectCoins coins targetAmount forceChange =
     (if isNaN targetAmount then Inl TargetAmountIsNaN
      else if num_lt targetAmount (Number 0) then Inl TargetAmountIsNegative
      else if num_eq targetAmount (Number 0) then Inr \<lparr>inputs = [], changeAmount = 0\<rparr>
      else
        (case select_loop forceChange targetAmount (sortedCoins coins) [] 0 of
           (selectedCoins, selectedAmount) \<Rightarrow>
             if num_eq (Number selectedAmount) targetAmount
             then Inr \<lparr>inputs = selectedCoins, changeAmount = 0\<rparr>
             else if num_lt (Number selectedAmount) targetAmount then Inl InsufficientFunds
             else
               (case BigInt (num_sub (Number selectedAmount) targetAmount) of
                  Inl e \<Rightarrow> Inl e
                | Inr change \<Rightarrow> Inr \<lparr>inputs = selectedCoins, changeAmount = change\<rparr>)))"

definition sum_values :: "Coin list \<Rightarrow> int" where
  "sum_values cs = sum_list (map Coin.value cs)"

section \<open>Collaborators\<close>

text \<open>
  The explorer, the indexer, the signer and the transaction library are outside the
  program. Each is a record of functions giving the answer of one call, an error being
  the exception the call throws; the answers are a snapshot of the collaborator during
  one call of the function under study.
\<close>

type_synonym bytes = string

record TxStatus =
  confirmed :: bool
  blockHeight :: int
  blockTime :: int

record BlockTime =
  height :: int
  time :: int

record OnchainProvider =
  getCoins :: "string \<Rightarrow> error + Coin list"
  getFeeRate :: "error + number option"
  broadcastTransaction :: "string list \<Rightarrow> error + string"
  getTxStatus :: "string \<Rightarrow> error + TxStatus"
  getChainTip :: "error + BlockTime"

record TapLeaf =
  controlBlock :: bytes
  leafScript :: bytes

record TransactionInput =
  input_txid :: string
  index :: nat
  witnessUtxo :: "(bytes \<times> int) option"
  tapInternalKey :: "bytes option"
  tapLeafScript :: "TapLeaf list"
  sequence :: "nat option"
  tapKeySig :: "bytes option"
  finalScriptWitness :: "bytes list option"

record Transaction =
  version :: nat
  tx_inputs :: "TransactionInput list"
  tx_outputs :: "(string \<times> int) list"

record TxLibrary =
  findP2AOutput :: "Transaction \<Rightarrow> error + TransactionInput"
  tx_vsize :: "Transaction \<Rightarrow> nat"
  tx_hex :: "Transaction \<Rightarrow> string"
  fromPSBT :: "string \<Rightarrow> error + Transaction"
  finalize :: "Transaction \<Rightarrow> error + Transaction"
  finalizeIdx :: "nat \<Rightarrow> Transaction \<Rightarrow> error + Transaction"
  decodeAddress :: "string \<Rightarrow> error + nat"
  sign :: "Transaction \<Rightarrow> error + Transaction"

definition emptyInput :: "string \<Rightarrow> nat \<Rightarrow> TransactionInput" where
  "emptyInput t i =
     \<lparr>input_txid = t, index = i, witnessUtxo = None, tapInternalKey = None,
      tapLeafScript = [], sequence = None, tapKeySig = None, finalScriptWitness = None\<rparr>"

definition addInput :: "TransactionInput \<Rightarrow> Transaction \<Rightarrow> Transaction" where
  "addInput i tx = tx\<lparr>tx_inputs := tx_inputs tx @ [i]\<rparr>"

text \<open>
  \<open>tx.addOutputAddress(address, amount, network)\<close> of the transaction library decodes
  the address, and throws when it cannot.
\<close>

definition tx_addOutputAddress ::
  "TxLibrary \<Rightarrow> string \<Rightarrow> int \<Rightarrow> Transaction \<Rightarrow> error + Transaction" where
  "tx_addOutputAddress lib address amount tx =
     (case decodeAddress lib address of
        Inl e \<Rightarrow> Inl e
      | Inr _ \<Rightarrow> Inr (tx\<lparr>tx_outputs := tx_outputs tx @ [(address, amount)]\<rparr>))"

section \<open>OnchainWallet\<close>

record OnchainWallet =
  address :: string
  provider :: OnchainProvider
  p2tr_script :: bytes
  p2tr_tapInternalKey :: bytes

definition MIN_FEE_RATE :: number where
  "MIN_FEE_RATE = Number 1"

definition MAX_ITERATIONS :: nat where
  "MAX_ITERATIONS = 10"

record FeeSelection = Selection +
  fee :: number

text \<open>
  \<open>estimateFeesAndSelectCoins\<close>: the body of the \<open>for\<close> loop at counter \<open>i\<close> with the
  current fee. \<open>DUST_AMOUNT\<close> is imported from a module that is not part of the
  sources at hand, so it is a parameter.
\<close>

function estimate_loop ::
  "TxLibrary \<Rightarrow> OnchainWallet \<Rightarrow> int \<Rightarrow> Coin list \<Rightarrow> number \<Rightarrow> number \<Rightarrow> string
   \<Rightarrow> nat \<Rightarrow> number \<Rightarrow> error + FeeSelection" where
  "estimate_loop lib this DUST_AMOUNT coins amount feeRate recipientAddress i currentFee =
     (if i < MAX_ITERATIONS then
        (let totalNeeded = num_add amount currentFee in
         case selectCoins coins totalNeeded False of
           Inl e \<Rightarrow> Inl e
         | Inr selected \<Rightarrow>
             (let estimator = fold (\<lambda>_. addKeySpendInput True) (inputs selected) create in
              case addOutputAddress (decodeAddress lib) recipientAddress estimator of
                Inl e \<Rightarrow> Inl e
              | Inr estimator1 \<Rightarrow>
                  (case (if changeAmount selected \<ge> DUST_AMOUNT
                         then addOutputAddress (decodeAddress lib) (address this) estimator1
                         else Inr estimator1) of
                     Inl e \<Rightarrow> Inl e
                   | Inr estimator2 \<Rightarrow>
                       (let newFee = num_mul (Number (VSize.value (vsize estimator2))) feeRate;
                            roundedNewFee = num_ceil newFee
                        in if num_le roundedNewFee currentFee
                           then Inr \<lparr>inputs = inputs selected,
                                     changeAmount = changeAmount selected,
                                     fee = roundedNewFee\<rparr>
                           else estimate_loop lib this DUST_AMOUNT coins amount feeRate
                                  recipientAddress (i + 1) roundedNewFee))))
      else Inl FeeEstimationCouldNotConverge)"
  by pat_completeness auto
termination
  by (relation "measure (\<lambda>(lib, this, d, coins, amount, feeRate, r, i, f). MAX_ITERATIONS - i)")
     auto

declare estimate_loop.simps [simp del]

definition estimateFeesAndSelectCoins ::
  "TxLibrary \<Rightarrow> OnchainWallet \<Rightarrow> int \<Rightarrow> Coin list \<Rightarrow> number \<Rightarrow> number \<Rightarrow> string
   \<Rightarrow> error + FeeSelection" where
  "estimateFeesAndSelectCoins lib this DUST_AMOUNT coins amount feeRate recipientAddress =
     estimate_loop lib this DUST_AMOUNT coins amount feeRate recipientAddress 0 (Number 0)"

text \<open>
  The fee-convergence loop as the specification words it: a bounded fixed-point
  iteration with \<open>n\<close> iterations left. Each iteration selects coins for amount + fee,
  estimates a transaction with one key-spend input per selected coin, one payment output
  and a change output only when the change is at least the dust limit, and computes
  newFee = ceil(vsize * feeRate), the product being the product of doubles.
\<close>

fun ceil_double_product :: "int \<Rightarrow> number \<Rightarrow> number" where
  "ceil_double_product v (Finite r) =
     (case toDouble (of_int v * r) of Finite x \<Rightarrow> Finite (of_int \<lceil>x\<rceil>) | y \<Rightarrow> y)"
| "ceil_double_product v NaN = NaN"
| "ceil_double_product v PosInfinity =
     (if v = 0 then NaN else if 0 < v then PosInfinity else NegInfinity)"
| "ceil_double_product v NegInfinity =
     (if v = 0 then NaN else if 0 < v then NegInfinity else PosInfinity)"

definition planned_ops :: "nat \<Rightarrow> nat \<Rightarrow> nat \<Rightarrow> bool \<Rightarrow> estimator_op list" where
  "planned_ops nInputs paymentScriptLen changeScriptLen withChange =
     replicate nInputs (KeySpendInput True) @ [OutputScript paymentScriptLen]
       @ (if withChange then [OutputScript changeScriptLen] else [])"

fun sendPlanner_spec ::
  "TxLibrary \<Rightarrow> OnchainWallet \<Rightarrow> int \<Rightarrow> Coin list \<Rightarrow> number \<Rightarrow> number \<Rightarrow> string
   \<Rightarrow> nat \<Rightarrow> number \<Rightarrow> error + FeeSelection" where
  "sendPlanner_spec lib this dustLimit coins amount feeRate recipient 0 currentFee =
     Inl FeeEstimationCouldNotConverge"
| "sendPlanner_spec lib this dustLimit coins amount feeRate recipient (Suc n) currentFee =
     (case selectCoins coins (num_add amount currentFee) False of
        Inl e \<Rightarrow> Inl e
      | Inr sel \<Rightarrow>
          (case decodeAddress lib recipient of
             Inl e \<Rightarrow> Inl e
           | Inr paymentLen \<Rightarrow>
               (case (if changeAmount sel \<ge> dustLimit
                      then decodeAddress lib (address this) else Inr 0) of
                  Inl e \<Rightarrow> Inl e
                | Inr changeLen \<Rightarrow>
                    (let ops = planned_ops (length (inputs sel)) paymentLen changeLen
                                 (changeAmount sel \<ge> dustLimit);
                         newFee = ceil_double_product \<lceil>(of_nat (spec_weight ops) :: rat) / 4\<rceil>
                                    feeRate
                     in if num_le newFee currentFee
                        then Inr \<lparr>inputs = inputs sel, changeAmount = changeAmount sel,
                                  fee = newFee\<rparr>
                        else sendPlanner_spec lib this dustLimit coins amount feeRate recipient
                               n newFee))))"

text \<open>
  \<open>bumpP2A\<close>. \<open>P2A_amount\<close> is the constant \<open>P2A.amount\<close> of the anchor module, which is
  not part of the sources at hand, so it is a parameter. The loop over
  \<open>child.finalizeIdx(i)\<close> runs from index 1 to the last input. \<open>build_child\<close> is
  the function up to its \<open>try\<close> statement: it builds, signs and finalises the child.
  The \<open>try\<close> statement submits the package, catches the error of the submission,
  prints it, and returns the package from its \<open>finally\<close> block.
\<close>

fun finalize_inputs :: "TxLibrary \<Rightarrow> nat list \<Rightarrow> Transaction \<Rightarrow> error + Transaction" where
  "finalize_inputs lib [] child = Inr child"
| "finalize_inputs lib (i # rest) child =
     (case finalizeIdx lib i child of
        Inl e \<Rightarrow> Inl e
      | Inr child' \<Rightarrow> finalize_inputs lib rest child')"

definition walletInput :: "OnchainWallet \<Rightarrow> Coin \<Rightarrow> TransactionInput" where
  "walletInput this input =
     (emptyInput (txid input) (vout input))
       \<lparr>witnessUtxo := Some (p2tr_script this, Coin.value input),
        tapInternalKey := Some (p2tr_tapInternalKey this)\<rparr>"

definition flooredFeeRate :: "number \<Rightarrow> number option \<Rightarrow> number" where
  "flooredFeeRate minFeeRate feeRate =
     (if falsy feeRate then minFeeRate
      else if num_lt (the feeRate) minFeeRate then minFeeRate
      else the feeRate)"

definition build_child ::
  "TxLibrary \<Rightarrow> int \<Rightarrow> OnchainWallet \<Rightarrow> Transaction \<Rightarrow> error + Transaction" where
  "build_child lib P2A_amount this parent =
     (let parentVsize = tx_vsize lib parent;
          child0 = \<lparr>version = 3, tx_inputs = [], tx_outputs = []\<rparr>
      in
      case findP2AOutput lib parent of
        Inl e \<Rightarrow> Inl e
      | Inr anchor \<Rightarrow>
      (let child1 = addInput anchor child0 in
      case addOutputAddress (decodeAddress lib) (address this)
             (addP2AInput (addKeySpendInput True create)) of
        Inl e \<Rightarrow> Inl e
      | Inr estimator \<Rightarrow>
      (let childVsize = VSize.value (vsize estimator);
           packageVSize = num_add (Number (int parentVsize)) (Number childVsize)
       in
      case getFeeRate (provider this) of
        Inl e \<Rightarrow> Inl e
      | Inr feeRate0 \<Rightarrow>
      (let feeRate = flooredFeeRate MIN_FEE_RATE feeRate0;
           fee = num_ceil (num_mul feeRate packageVSize)
       in
      if falsy (Some fee) then Inl InvalidFee
      else
      case getCoins (provider this) (address this) of
        Inl e \<Rightarrow> Inl e
      | Inr coins \<Rightarrow>
      (case selectCoins coins fee True of
        Inl e \<Rightarrow> Inl e
      | Inr selected \<Rightarrow>
      (let child2 = fold (\<lambda>input. addInput (walletInput this input)) (inputs selected) child1
       in
      case tx_addOutputAddress lib (address this) (P2A_amount + changeAmount selected) child2 of
        Inl e \<Rightarrow> Inl e
      | Inr child3 \<Rightarrow>
      (case sign lib child3 of
        Inl e \<Rightarrow> Inl e
      | Inr child4 \<Rightarrow> finalize_inputs lib [1 ..< length (tx_inputs child4)] child4)))))))"

definition bumpP2A ::
  "TxLibrary \<Rightarrow> int \<Rightarrow> OnchainWallet \<Rightarrow> Transaction \<Rightarrow> error + (string \<times> string)" where
  "bumpP2A lib P2A_amount this parent =
     (case build_child lib P2A_amount this parent of
        Inl e \<Rightarrow> Inl e
      | Inr child \<Rightarrow>
          (case broadcastTransaction (provider this) [tx_hex lib parent, tx_hex lib child] of
             Inl error \<Rightarrow> Inr (tx_hex lib parent, tx_hex lib child)
           | Inr _ \<Rightarrow> Inr (tx_hex lib parent, tx_hex lib child)))"

section \<open>Unroll: exit paths, the session and the final sweep\<close>

datatype timelock_type = blocks | seconds

record RelativeTimelock =
  lock_type :: timelock_type
  lock_value :: int

record ExitPath =
  timelock :: RelativeTimelock
  script :: bytes

text \<open>
  A decoded tap tree (\<open>VtxoScript.decode(vtxo.tapTree)\<close>): its exit paths in declared
  order, its leaves by script, and its output script.
\<close>

record VtxoScript =
  exitPaths :: "ExitPath list"
  findLeaf :: "bytes \<Rightarrow> TapLeaf option"
  pkScript :: bytes

record ExtendedVirtualCoin = Coin +
  isUnrolled :: bool
  tapTree :: VtxoScript

text \<open>The \<open>for\<close> loop of \<open>availableExitPath\<close> over the exit paths.\<close>

fun exit_loop :: "BlockTime \<Rightarrow> BlockTime \<Rightarrow> ExitPath list \<Rightarrow> ExitPath option" where
  "exit_loop confirmedAt current [] = None"
| "exit_loop confirmedAt current (exit # exits) =
     (if lock_type (timelock exit) = blocks then
        (if height current \<ge> height confirmedAt + lock_value (timelock exit)
         then Some exit
         else exit_loop confirmedAt current exits)
      else
        (if time current \<ge> time confirmedAt + lock_value (timelock exit)
         then Some exit
         else exit_loop confirmedAt current exits))"

definition availableExitPath ::
  "BlockTime \<Rightarrow> BlockTime \<Rightarrow> ExtendedVirtualCoin \<Rightarrow> ExitPath option" where
  "availableExitPath confirmedAt current vtxo =
     exit_loop confirmedAt current (exitPaths (tapTree vtxo))"

text \<open>The timelock condition as the specification states it.\<close>

definition matured :: "BlockTime \<Rightarrow> BlockTime \<Rightarrow> ExitPath \<Rightarrow> bool" where
  "matured confirmedAt tip p =
     (case lock_type (timelock p) of
        blocks \<Rightarrow> height tip \<ge> height confirmedAt + lock_value (timelock p)
      | seconds \<Rightarrow> time tip \<ge> time confirmedAt + lock_value (timelock p))"

subsection \<open>Session.next\<close>

datatype ChainTxType = COMMITMENT | TREE | ARK | CHECKPOINT | UNSPECIFIED

record ChainTx =
  chain_txid :: string
  chain_type :: ChainTxType

record IndexerProvider =
  getVirtualTxs :: "string list \<Rightarrow> error + string list"

text \<open>
  A step, and the action \<open>do\<close> that comes with it: \<open>doWait\<close> for a txid, \<open>doUnroll\<close>
  for a package, or the action that does nothing.
\<close>

datatype Step =
    UNROLL Transaction "string \<times> string"
  | WAIT string
  | DONE string

datatype action = DoWait string | DoUnroll "string \<times> string" | DoNothing

text \<open>
  The scan of \<open>next\<close>: the \<open>for\<close> loop from \<open>i = chain.length - 1\<close> down to 0;
  \<open>scan explorer chain n\<close> is the loop with \<open>i = n - 1\<close> still to visit. It ends with
  the txid to wait for, with the node to broadcast, or at the end of the chain.
  The \<open>catch\<close> of the loop has no condition: whatever \<open>getTxStatus\<close> throws, the node
  becomes the next one to broadcast.
\<close>

datatype scan_result = Wait string | Broadcast ChainTx | Completed

fun scan :: "OnchainProvider \<Rightarrow> ChainTx list \<Rightarrow> nat \<Rightarrow> scan_result" where
  "scan explorer chain 0 = Completed"
| "scan explorer chain (Suc i) =
     (let chainTx = chain ! i in
      if chain_type chainTx = COMMITMENT \<or> chain_type chainTx = UNSPECIFIED
      then scan explorer chain i
      else
        (case getTxStatus explorer (chain_txid chainTx) of
           Inr txInfo \<Rightarrow>
             if \<not> confirmed txInfo then Wait (chain_txid chainTx)
             else scan explorer chain i
         | Inl e \<Rightarrow> Broadcast chainTx))"

record Session =
  toUnroll :: Outpoint
  chain :: "ChainTx list"
  bumper :: "Transaction \<Rightarrow> error + (string \<times> string)"
  explorer :: OnchainProvider
  indexer :: IndexerProvider

text \<open>
  Finalising a tree transaction: \<open>getInput(0)\<close>, its \<open>tapKeySig\<close>, and
  \<open>updateInput(0, {finalScriptWitness: [tapKeySig]})\<close>.
\<close>

definition finalizeTree :: "Transaction \<Rightarrow> error + Transaction" where
  "finalizeTree tx =
     (case tx_inputs tx of
        [] \<Rightarrow> Inl InputNotFound
      | input # rest \<Rightarrow>
          (case tapKeySig input of
             None \<Rightarrow> Inl TapKeySigNotFound
           | Some sig \<Rightarrow>
               Inr (tx\<lparr>tx_inputs := input\<lparr>finalScriptWitness := Some [sig]\<rparr> # rest\<rparr>)))"

text \<open>
  \<open>Session.next\<close>: the scan, then, when the scan found a node to broadcast, the second
  half of the function (\<open>unroll_step\<close>): fetch the virtual transaction, finalise it and
  hand it to the bumper.
\<close>

definition unroll_step :: "TxLibrary \<Rightarrow> Session \<Rightarrow> ChainTx \<Rightarrow> error + (Step \<times> action)" where
  "unroll_step lib this nextTxToBroadcast =
     (case getVirtualTxs (indexer this) [chain_txid nextTxToBroadcast] of
        Inl e \<Rightarrow> Inl e
      | Inr txs \<Rightarrow>
          if length txs = 0 then Inl (TxNotFound (chain_txid nextTxToBroadcast))
          else
            (case fromPSBT lib (txs ! 0) of
               Inl e \<Rightarrow> Inl e
             | Inr tx \<Rightarrow>
                 (case (if chain_type nextTxToBroadcast = TREE
                        then finalizeTree tx else finalize lib tx) of
                    Inl e \<Rightarrow> Inl e
                  | Inr tx' \<Rightarrow>
                      (case bumper this tx' of
                         Inl e \<Rightarrow> Inl e
                       | Inr pkg \<Rightarrow> Inr (UNROLL tx' pkg, DoUnroll pkg)))))"

definition Session_next :: "TxLibrary \<Rightarrow> Session \<Rightarrow> error + (Step \<times> action)" where
  "Session_next lib this =
     (case scan (explorer this) (chain this) (length (chain this)) of
        Wait t \<Rightarrow> Inr (WAIT t, DoWait t)
      | Completed \<Rightarrow> Inr (DONE (txid (toUnroll this)), DoNothing)
      | Broadcast nextTxToBroadcast \<Rightarrow> unroll_step lib this nextTxToBroadcast)"

subsection \<open>prepareUnrollTransaction\<close>

record Wallet =
  onchainProvider :: OnchainProvider
  getVtxos :: "error + ExtendedVirtualCoin list"

text \<open>
  The loop over the selected VTXOs, with the inputs, the total amount and the weight
  estimator built so far.
\<close>

fun vtxo_loop ::
  "Wallet \<Rightarrow> BlockTime \<Rightarrow> ExtendedVirtualCoin list
   \<Rightarrow> TransactionInput list \<times> int \<times> TxWeightEstimator
   \<Rightarrow> error + (TransactionInput list \<times> int \<times> TxWeightEstimator)" where
  "vtxo_loop wallet chainTip [] acc = Inr acc"
| "vtxo_loop wallet chainTip (vtxo # rest) (ins, totalAmount, txWeightEstimator) =
     (if \<not> isUnrolled vtxo then Inl (VtxoNotFullyUnrolled (txid vtxo) (vout vtxo))
      else
        (case getTxStatus (onchainProvider wallet) (txid vtxo) of
           Inl e \<Rightarrow> Inl e
         | Inr txStatus \<Rightarrow>
             if \<not> confirmed txStatus then Inl (TxNotConfirmed (txid vtxo))
             else
               (case availableExitPath
                       \<lparr>height = blockHeight txStatus, time = blockTime txStatus\<rparr>
                       chainTip vtxo of
                  None \<Rightarrow> Inl (NoAvailableExitPath (txid vtxo) (vout vtxo))
                | Some exit \<Rightarrow>
                    (case findLeaf (tapTree vtxo) (script exit) of
                       None \<Rightarrow> Inl (SpendingLeafNotFound (txid vtxo) (vout vtxo))
                     | Some spendingLeaf \<Rightarrow>
                         vtxo_loop wallet chainTip rest
                           (ins @ [(emptyInput (txid vtxo) (vout vtxo))
                                     \<lparr>tapLeafScript := [spendingLeaf],
                                      sequence := Some (0xffffffff - 1),
                                      witnessUtxo :=
                                        Some (pkScript (tapTree vtxo), Coin.value vtxo)\<rparr>],
                            totalAmount + Coin.value vtxo,
                            addTapscriptInput 64 (length (leafScript spendingLeaf))
                              (length (controlBlock spendingLeaf)) txWeightEstimator)))))"

text \<open>
  \<open>Wallet.MIN_FEE_RATE\<close> belongs to a class that is not part of the sources at hand, so it
  is the parameter \<open>minFeeRate\<close>.
\<close>

definition prepareUnrollTransaction ::
  "TxLibrary \<Rightarrow> number \<Rightarrow> Wallet \<Rightarrow> string list \<Rightarrow> string \<Rightarrow> error + Transaction" where
  "prepareUnrollTransaction lib minFeeRate wallet vtxoTxIds outputAddress =
     (case getChainTip (onchainProvider wallet) of
        Inl e \<Rightarrow> Inl e
      | Inr chainTip \<Rightarrow>
      (case getVtxos wallet of
        Inl e \<Rightarrow> Inl e
      | Inr allVtxos \<Rightarrow>
      (let vtxos = filter (\<lambda>vtxo. txid vtxo \<in> set vtxoTxIds) allVtxos in
      if length vtxos = 0 then Inl NoVtxosToCompleteUnroll
      else
      case vtxo_loop wallet chainTip vtxos ([], 0, create) of
        Inl e \<Rightarrow> Inl e
      | Inr (ins, totalAmount, txWeightEstimator) \<Rightarrow>
      (let tx = fold addInput ins \<lparr>version = 2, tx_inputs = [], tx_outputs = []\<rparr>;
           txWeightEstimator' = addP2TROutput txWeightEstimator
       in
      case getFeeRate (onchainProvider wallet) of
        Inl e \<Rightarrow> Inl e
      | Inr feeRate0 \<Rightarrow>
      (let feeRate = flooredFeeRate minFeeRate feeRate0 in
      case BigInt feeRate of
        Inl e \<Rightarrow> Inl e
      | Inr feeRateSats \<Rightarrow>
      (let feeAmount = VSize.fee (vsize txWeightEstimator') feeRateSats in
      if feeAmount > totalAmount then Inl FeeGreaterThanTotalAmount
      else
      case tx_addOutputAddress lib outputAddress (totalAmount - feeAmount) tx of
        Inl e \<Rightarrow> Inl e
      | Inr tx' \<Rightarrow>
      (case sign lib tx' of
        Inl e \<Rightarrow> Inl e
      | Inr signedTx \<Rightarrow> finalize lib signedTx)))))))"

subsection \<open>What the scan sees at a node\<close>

text \<open>
  A node is skipped when it is typed COMMITMENT or UNSPECIFIED. A node that is not
  skipped is looked up: it is found and confirmed, found and unconfirmed, or the lookup
  fails. The scan goes past the nodes that are skipped or confirmed.
\<close>

definition skipped :: "ChainTx \<Rightarrow> bool" where
  "skipped c = (chain_type c = COMMITMENT \<or> chain_type c = UNSPECIFIED)"

definition found_confirmed :: "OnchainProvider \<Rightarrow> ChainTx \<Rightarrow> bool" where
  "found_confirmed ex c =
     (case getTxStatus ex (chain_txid c) of Inr s \<Rightarrow> confirmed s | Inl _ \<Rightarrow> False)"

definition found_unconfirmed :: "OnchainProvider \<Rightarrow> ChainTx \<Rightarrow> bool" where
  "found_unconfirmed ex c =
     (case getTxStatus ex (chain_txid c) of Inr s \<Rightarrow> \<not> confirmed s | Inl _ \<Rightarrow> False)"

definition lookup_fails :: "OnchainProvider \<Rightarrow> ChainTx \<Rightarrow> bool" where
  "lookup_fails ex c =
     (case getTxStatus ex (chain_txid c) of Inr _ \<Rightarrow> False | Inl _ \<Rightarrow> True)"

definition passed :: "OnchainProvider \<Rightarrow> ChainTx \<Rightarrow> bool" where
  "passed ex c = (skipped c \<or> found_confirmed ex c)"

text \<open>
  The explorer that answers every failed lookup with the not-found signal, and is
  otherwise unchanged.
\<close>

definition as_not_found :: "OnchainProvider \<Rightarrow> OnchainProvider" where
  "as_not_found ex =
     ex\<lparr>getTxStatus :=
          (\<lambda>t. case getTxStatus ex t of
                  Inl _ \<Rightarrow> Inl (ProviderError NotFound)
                | Inr s \<Rightarrow> Inr s)\<rparr>"

text \<open>Every node of the chain between index \<open>i\<close> and index \<open>n\<close>, both excluded, is passed.\<close>

definition above_passed :: "OnchainProvider \<Rightarrow> ChainTx list \<Rightarrow> nat \<Rightarrow> nat \<Rightarrow> bool" where
  "above_passed ex ch i n = (\<forall>j. i < j \<and> j < n \<longrightarrow> passed ex (ch ! j))"

section \<open>Example data\<close>

text \<open>Concrete coins, collaborators and chains, for evaluating the functions above.\<close>

definition coin :: "string \<Rightarrow> int \<Rightarrow> Coin" where
  "coin t v = \<lparr>txid = t, vout = 0, value = v\<rparr>"

definition failing_lookup :: "string \<Rightarrow> error + TxStatus" where
  "failing_lookup t = Inl (ProviderError NetworkFailure)"

definition example_provider :: OnchainProvider where
  "example_provider =
     \<lparr>getCoins = (\<lambda>a. Inr [coin ''c1'' 1000]),
      getFeeRate = Inr (Some (Number 1)),
      broadcastTransaction = (\<lambda>txs. Inl (ProviderError NetworkFailure)),
      getTxStatus = failing_lookup,
      getChainTip = Inr \<lparr>height = 150, time = 1400\<rparr>\<rparr>"

definition example_tx :: "nat \<Rightarrow> Transaction" where
  "example_tx v = \<lparr>version = v, tx_inputs = [], tx_outputs = []\<rparr>"

definition example_lib :: TxLibrary where
  "example_lib =
     \<lparr>findP2AOutput = (\<lambda>tx. Inr (emptyInput ''parent'' 1)),
      tx_vsize = (\<lambda>tx. 100),
      tx_hex = (\<lambda>tx. if version tx = 3 then ''child'' else ''parent''),
      fromPSBT = (\<lambda>s. Inr (example_tx 2)),
      finalize = Inr,
      finalizeIdx = (\<lambda>i. Inr),
      decodeAddress = (\<lambda>a. Inr 34),
      sign = Inr\<rparr>"

definition example_wallet :: OnchainWallet where
  "example_wallet =
     \<lparr>address = ''addr'', provider = example_provider,
      p2tr_script = ''script'', p2tr_tapInternalKey = ''key''\<rparr>"

definition example_session :: Session where
  "example_session =
     \<lparr>toUnroll = \<lparr>txid = ''vtxo'', vout = 0\<rparr>,
      chain = [\<lparr>chain_txid = ''leaf'', chain_type = ARK\<rparr>,
               \<lparr>chain_txid = ''root'', chain_type = COMMITMENT\<rparr>],
      bumper = (\<lambda>tx. Inr (''parent'', ''child'')),
      explorer = example_provider,
      indexer = \<lparr>getVirtualTxs = (\<lambda>ids. Inr [''psbt''])\<rparr>\<rparr>"

text \<open>An explorer that finds \<open>leaf\<close> unconfirmed, and one that finds everything confirmed.\<close>

definition status_at :: "bool \<Rightarrow> TxStatus" where
  "status_at c = \<lparr>confirmed = c, blockHeight = 100, blockTime = 1000\<rparr>"

definition mempool_provider :: OnchainProvider where
  "mempool_provider =
     example_provider\<lparr>getTxStatus := (\<lambda>t. Inr (status_at (t \<noteq> ''leaf'')))\<rparr>"

definition confirmed_provider :: OnchainProvider where
  "confirmed_provider = example_provider\<lparr>getTxStatus := (\<lambda>t. Inr (status_at True))\<rparr>"

text \<open>Exit paths of 144 blocks and of 300 seconds, and a VTXO that has them.\<close>

definition path144 :: ExitPath where
  "path144 = \<lparr>timelock = \<lparr>lock_type = blocks, lock_value = 144\<rparr>, script = ''blocks144''\<rparr>"

definition path300 :: ExitPath where
  "path300 = \<lparr>timelock = \<lparr>lock_type = seconds, lock_value = 300\<rparr>, script = ''seconds300''\<rparr>"

definition example_vtxo :: "int \<Rightarrow> ExtendedVirtualCoin" where
  "example_vtxo v =
     \<lparr>txid = ''vtxo'', vout = 0, value = v, isUnrolled = True,
      tapTree = \<lparr>exitPaths = [path144, path300],
                 findLeaf = (\<lambda>s. Some \<lparr>controlBlock = ''cb'', leafScript = s\<rparr>),
                 pkScript = ''pk''\<rparr>\<rparr>"

definition example_unroll_wallet :: "int \<Rightarrow> Wallet" where
  "example_unroll_wallet v =
     \<lparr>onchainProvider = confirmed_provider, getVtxos = Inr [example_vtxo v]\<rparr>"

text \<open>
  The double nearest to 1.6, and a library that decodes the address \<open>recipient\<close> to a
  script of 23 bytes.
\<close>

definition rate16 :: rat where
  "rate16 = 7205759403792794 / 4503599627370496"

definition example_lib23 :: TxLibrary where
  "example_lib23 =
     example_lib\<lparr>decodeAddress := (\<lambda>a. if a = ''recipient'' then Inr 23 else Inr 34)\<rparr>"

section \<open>Properties of the rounding\<close>

lemma pow2_pos [simp]: "0 < pow2 e"
  by (simp add: pow2_def)

lemma pow2_nat: "pow2 (int n) = 2 ^ n"
  by (simp add: pow2_def)

lemma pow2_neg: "pow2 (- int n) = 1 / 2 ^ n"
  by (cases n) (simp_all add: pow2_def nat_add_distrib)

lemma int_pow_bounds_unique:
  fixes n :: int
  assumes "2 ^ a \<le> n" "n < 2 ^ Suc a" "2 ^ b \<le> n" "n < 2 ^ Suc b"
  shows "a = b"
proof (rule ccontr)
  assume "a \<noteq> b"
  then consider "Suc a \<le> b" | "Suc b \<le> a" by linarith
  then show False
  proof cases
    case 1
    then have "(2::int) ^ Suc a \<le> 2 ^ b" by (intro power_increasing) simp_all
    with assms show False by linarith
  next
    case 2
    then have "(2::int) ^ Suc b \<le> 2 ^ a" by (intro power_increasing) simp_all
    with assms show False by linarith
  qed
qed

lemma bitlen_unique:
  assumes "2 ^ k \<le> n" "n < 2 ^ Suc k"
  shows "bitlen n = int k + 1"
proof -
  have pos: "0 < n" using assms(1) by (smt (verit) zero_less_power)
  from bitlen_bounds [OF pos]
  have b: "2 ^ nat (bitlen n - 1) \<le> n" "n < 2 ^ nat (bitlen n)" by simp_all
  have b1: "1 \<le> bitlen n"
    using pos bitlen_eq_zero_iff [of n] bitlen_nonneg [of n] by linarith
  then have "nat (bitlen n) = Suc (nat (bitlen n - 1))" by linarith
  with b have "n < 2 ^ Suc (nat (bitlen n - 1))" by simp
  with assms b(1) have "k = nat (bitlen n - 1)"
    by (intro int_pow_bounds_unique [of k n])
  with b1 show ?thesis by linarith
qed

lemma floor_log2_ge1:
  assumes "2 ^ k \<le> x" "x < 2 ^ Suc k"
  shows "floor_log2 x = int k"
proof -
  have x1: "1 \<le> x" using assms(1) one_le_power [of "2::rat" k] by linarith
  have "(of_int (2 ^ k) :: rat) \<le> x" using assms(1) by simp
  then have lo: "2 ^ k \<le> \<lfloor>x\<rfloor>" by (simp only: le_floor_iff)
  have "x < of_int (2 ^ Suc k)" using assms(2) by simp
  then have hi: "\<lfloor>x\<rfloor> < 2 ^ Suc k" by (simp only: floor_less_iff)
  from bitlen_unique [OF lo hi] x1 show ?thesis
    by (simp add: floor_log2_def)
qed

lemma floor_log2_lt1:
  assumes "0 < x" "1 / 2 ^ Suc k \<le> x" "x < 1 / 2 ^ k"
  shows "floor_log2 x = - int (Suc k)"
proof -
  have x1: "\<not> 1 \<le> x"
  proof -
    have "1 / 2 ^ k \<le> (1::rat)" by (simp add: divide_le_eq)
    with assms(3) show ?thesis by linarith
  qed
  have y_hi: "1 / x \<le> 2 ^ Suc k"
    using assms(1,2) by (simp add: field_simps)
  have y_lo: "2 ^ k < 1 / x"
    using assms(1,3) by (simp add: field_simps)
  have "1 / x \<le> of_int (2 ^ Suc k)" using y_hi by simp
  then have c_hi: "\<lceil>1 / x\<rceil> \<le> 2 ^ Suc k" by (simp only: ceiling_le_iff)
  have "of_int (2 ^ k) < 1 / x" using y_lo by simp
  then have c_lo: "2 ^ k < \<lceil>1 / x\<rceil>" by (simp only: less_ceiling_iff)
  have "bitlen (\<lceil>1 / x\<rceil> - 1) = int k + 1"
    using c_lo c_hi by (intro bitlen_unique) simp_all
  with x1 show ?thesis by (simp add: floor_log2_def)
qed

lemma round_half_even_unique:
  assumes "\<bar>x - of_int m\<bar> < 1 / 2"
  shows "round_half_even x = m"
proof -
  let ?f = "\<lfloor>x\<rfloor>"
  have f: "of_int ?f \<le> x" "x < of_int ?f + 1" by linarith+
  from assms have m: "of_int m - 1 / 2 < x" "x < of_int m + 1 / 2" by linarith+
  have "of_int ?f < (of_int m :: rat) + 1 / 2" using f m by linarith
  then have "of_int ?f < (of_int (m + 1) :: rat)" by simp
  then have "?f < m + 1" by (simp only: of_int_less_iff)
  then have le: "?f \<le> m" by linarith
  have "(of_int m :: rat) - 1 / 2 < of_int ?f + 1" using f m by linarith
  then have "(of_int (m - 2) :: rat) < of_int ?f" by simp
  then have "m - 2 < ?f" by (simp only: of_int_less_iff)
  then have ge: "m - 1 \<le> ?f" by linarith
  from le ge consider "?f = m" | "?f = m - 1" by linarith
  then show ?thesis
  proof cases
    case 1
    with m have "x - of_int ?f < 1 / 2" by simp
    with 1 show ?thesis by (simp add: round_half_even_def Let_def)
  next
    case 2
    with m have "1 / 2 < x - of_int ?f" by simp
    with 2 show ?thesis by (simp add: round_half_even_def Let_def)
  qed
qed

lemma pow2_add: "pow2 (a + b) = pow2 a * pow2 b"
proof -
  have "pow2 e = 2 powi e" for e
    by (simp add: pow2_def power_int_def field_simps)
  then show ?thesis
    by (simp add: power_int_add)
qed

lemma floor_log2_unique:
  assumes "pow2 k \<le> x" "x < pow2 (k + 1)"
  shows "floor_log2 x = k"
proof (cases "0 \<le> k")
  case True
  then obtain n where k: "k = int n" by (metis nonneg_int_cases)
  have "k + 1 = int (Suc n)" using k by simp
  with assms k have "2 ^ n \<le> x" "x < 2 ^ Suc n"
    by (simp_all only: pow2_nat)
  then show ?thesis unfolding k by (rule floor_log2_ge1)
next
  case False
  then obtain n where k: "k = - int (Suc n)"
    by (metis (no_types) add.inverse_inverse int_cases neg_0_le_iff_le of_nat_0_le_iff
        not0_implies_Suc of_nat_0)
  have k1: "k + 1 = - int n" using k by simp
  have pos: "0 < x" using assms(1) pow2_pos [of k] by linarith
  from assms have "1 / 2 ^ Suc n \<le> x" "x < 1 / 2 ^ n"
    unfolding k1 unfolding k by (simp_all only: pow2_neg)
  with pos show ?thesis unfolding k by (rule floor_log2_lt1)
qed

lemma round_double_cert:
  assumes pos: "0 < x" and e: "- 1074 \<le> e"
    and lo: "2 ^ 52 \<le> x / pow2 e" and hi: "x / pow2 e < 2 ^ 53"
    and m: "\<bar>x / pow2 e - of_int m\<bar> < 1 / 2"
    and fin: "of_int m * pow2 e < 2 ^ 1024"
  shows "round_double x = Finite (of_int m * pow2 e)"
proof -
  have p52: "pow2 52 = 2 ^ 52" "pow2 53 = 2 ^ 53"
    using pow2_nat [of 52] pow2_nat [of 53] by simp_all
  have "pow2 (e + 52) = pow2 e * 2 ^ 52" "pow2 (e + 52 + 1) = pow2 e * 2 ^ 53"
    using pow2_add [of e 52] pow2_add [of e 53] p52 by (simp_all add: add.assoc)
  moreover have "pow2 e * 2 ^ 52 \<le> x" "x < pow2 e * 2 ^ 53"
    using lo hi by (simp_all add: pos_le_divide_eq pos_divide_less_eq mult.commute)
  ultimately have "floor_log2 x = e + 52"
    by (intro floor_log2_unique) simp_all
  then have ex: "max (floor_log2 \<bar>x\<bar> - 52) (- 1074) = e"
    using pos e by simp
  have "round_half_even (\<bar>x\<bar> / pow2 e) = m"
    using m pos by (intro round_half_even_unique) simp
  with ex pos fin show ?thesis
    by (simp add: round_double_def Let_def)
qed

lemma toDouble_int [simp]: "toDouble (of_int i) = Finite (of_int i)"
  by (simp add: toDouble_def)

lemma toDouble_between:
  "of_int n < x \<Longrightarrow> x < of_int n + 1 \<Longrightarrow> toDouble x = round_double x"
proof -
  assume a: "of_int n < x" "x < of_int n + 1"
  then have "\<lfloor>x\<rfloor> = n" by (intro floor_unique) simp_all
  with a show ?thesis by (auto simp: toDouble_def)
qed

lemma toDouble_numeral [simp]:
  "toDouble (numeral k) = Finite (numeral k)"
  "toDouble (- numeral k) = Finite (- numeral k)"
  "toDouble 0 = Finite 0"
  "toDouble 1 = Finite 1"
  using toDouble_int [of "numeral k"] toDouble_int [of "- numeral k"] toDouble_int [of 0]
    toDouble_int [of 1]
  by simp_all

lemma toDouble_int_diff [simp]: "toDouble (of_int a - of_int b) = Finite (of_int (a - b))"
  using toDouble_int [of "a - b"] by simp

lemma toDouble_int_add [simp]: "toDouble (of_int a + of_int b) = Finite (of_int (a + b))"
  using toDouble_int [of "a + b"] by simp

lemma toDouble_int_mult [simp]: "toDouble (of_int a * of_int b) = Finite (of_int (a * b))"
  using toDouble_int [of "a * b"] by simp

lemma floor_half: "\<lfloor>1 / 2 :: rat\<rfloor> = 0"
  by (rule floor_unique) simp_all

lemma toDouble_half [simp]: "toDouble (1 / 2) = Finite (1 / 2)"
proof -
  have "round_double (1 / 2) = Finite (of_int (2 ^ 52) * pow2 (- 53))"
    by (rule round_double_cert) (simp_all add: pow2_def)
  moreover have "toDouble (1 / 2) = round_double (1 / 2)"
    by (rule toDouble_between [of 0]) simp_all
  ultimately show ?thesis by (simp add: pow2_def)
qed

section \<open>Properties of the estimator\<close>

lemma ceiling_quarter: "\<lceil>(of_nat w :: rat) / 4\<rceil> = (int w + 3) div 4"
proof -
  have "\<lceil>(of_nat w :: rat) / 4\<rceil> = \<lceil>(of_int (int w) :: rat) / of_int 4\<rceil>"
    by simp
  also have "\<dots> = - ((- int w) div 4)"
    by (simp only: ceiling_divide_eq_div)
  also have "\<dots> = (int w + 3) div 4"
    by presburger
  finally show ?thesis .
qed

lemma value_vsize: "VSize.value (vsize this) = (int (txWeight this) + 3) div 4"
  by (simp add: vsize_def vsize_of_weight_def WITNESS_SCALE_FACTOR_def ceiling_quarter Let_def)

lemma fee_vsize: "VSize.fee (vsize this) rate = rate * VSize.value (vsize this)"
  by (simp add: vsize_def vsize_of_weight_def Let_def)

lemmas estimator_ops =
  addP2AInput_def addKeySpendInput_def addP2PKHInput_def addTapscriptInput_def
  addP2WPKHOutput_def addP2TROutput_def addOutputScript_def

lemma fold_inputCount:
  "inputCount (fold apply_op ops s) = inputCount s + length (filter is_input ops)"
  proof (induction ops arbitrary: s)
  case Nil
  show ?case by simp
next
  case (Cons x xs)
  show ?case by (cases x) (simp_all add: Cons.IH estimator_ops Let_def)
qed

lemma fold_outputCount:
  "outputCount (fold apply_op ops s) = outputCount s + length (filter (\<lambda>x. \<not> is_input x) ops)"
  proof (induction ops arbitrary: s)
  case Nil
  show ?case by simp
next
  case (Cons x xs)
  show ?case by (cases x) (simp_all add: Cons.IH estimator_ops Let_def)
qed

lemma fold_inputSize:
  "inputSize (fold apply_op ops s) = inputSize s + sum_list (map input_bytes ops)"
  proof (induction ops arbitrary: s)
  case Nil
  show ?case by simp
next
  case (Cons x xs)
  show ?case by (cases x) (simp_all add: Cons.IH estimator_ops estimator_constants Let_def)
qed

lemma fold_outputSize:
  "outputSize (fold apply_op ops s) = outputSize s + sum_list (map output_bytes ops)"
  proof (induction ops arbitrary: s)
  case Nil
  show ?case by simp
next
  case (Cons x xs)
  show ?case by (cases x) (simp_all add: Cons.IH estimator_ops estimator_constants Let_def)
qed

lemma fold_inputWitnessSize:
  "inputWitnessSize (fold apply_op ops s) = inputWitnessSize s + sum_list (map witness_bytes ops)"
  proof (induction ops arbitrary: s)
  case Nil
  show ?case by simp
next
  case (Cons x xs)
  show ?case by (cases x) (simp_all add: Cons.IH estimator_ops estimator_constants Let_def)
qed

lemma fold_hasWitness:
  "hasWitness (fold apply_op ops s) = (hasWitness s \<or> some_marks_witness ops)"
  proof (induction ops arbitrary: s)
  case Nil
  show ?case by simp
next
  case (Cons x xs)
  show ?case by (cases x) (simp_all add: Cons.IH estimator_ops Let_def)
qed

lemma txWeight_run_ops: "txWeight (run_ops ops) = spec_weight ops"
  by (simp add: txWeight_def run_ops_def spec_weight_def strippedSize_def Let_def
      fold_inputCount fold_outputCount fold_inputSize fold_outputSize fold_inputWitnessSize
      fold_hasWitness create_def estimator_constants)

text \<open>
  Claim C7. For every sequence of add-input and add-output operations, the value of
  \<open>vsize()\<close> is the weight divided by 4 and rounded up, where the weight is four times
  the stripped size (10 base bytes, the two count prefixes, 41 bytes per input plus the
  script signature of a legacy input, and the output bytes) plus, only when some added
  input marked the witness-present flag, the 2-byte witness header and the accumulated
  witness bytes; and \<open>fee(rate)\<close> is \<open>rate * value\<close>.
\<close>

theorem vsize_is_ceiling_of_weight:
  "VSize.value (vsize (run_ops ops)) = \<lceil>(of_nat (spec_weight ops) :: rat) / 4\<rceil>
   \<and> VSize.fee (vsize (run_ops ops)) rate = rate * VSize.value (vsize (run_ops ops))
   \<and> BASE_TX_SIZE = 10 \<and> INPUT_SIZE = 41 \<and> WITNESS_HEADER_SIZE = 2 \<and> WITNESS_SCALE_FACTOR = 4"
  by (simp add: value_vsize fee_vsize txWeight_run_ops ceiling_quarter estimator_constants)

lemma getVarIntSize_mono: "m \<le> n \<Longrightarrow> getVarIntSize m \<le> getVarIntSize n"
  by (simp add: getVarIntSize_def)

lemma txWeight_apply_op: "txWeight s \<le> txWeight (apply_op x s)"
proof -
  have i: "getVarIntSize (inputCount s) \<le> getVarIntSize (Suc (inputCount s))"
    by (rule getVarIntSize_mono) simp
  have o: "getVarIntSize (outputCount s) \<le> getVarIntSize (Suc (outputCount s))"
    by (rule getVarIntSize_mono) simp
  show ?thesis
    using i o by (cases x) (auto simp add: txWeight_def estimator_ops Let_def estimator_constants)
qed

lemma vsize_apply_op: "VSize.value (vsize s) \<le> VSize.value (vsize (apply_op x s))"
  using txWeight_apply_op [of s x] by (simp add: value_vsize zdiv_mono1)

lemma txWeight_P2TR: "txWeight (addP2TROutput s) = txWeight (addP2WPKHOutput s) + 48"
  by (simp add: txWeight_def estimator_ops estimator_constants Let_def)

lemma txWeight_script34: "txWeight (addOutputScript 34 s) = txWeight (addOutputScript 22 s) + 48"
  by (simp add: txWeight_def estimator_ops estimator_constants Let_def getVarIntSize_def)

lemma P2TR_exceeds_P2WPKH:
  "VSize.value (vsize (addP2TROutput s)) = VSize.value (vsize (addP2WPKHOutput s)) + 12"
  unfolding value_vsize txWeight_P2TR by simp

lemma script34_exceeds_script22:
  "VSize.value (vsize (addOutputScript 34 s)) = VSize.value (vsize (addOutputScript 22 s)) + 12"
  unfolding value_vsize txWeight_script34 by simp

lemma txWeight_ge: "40 \<le> txWeight s"
  by (simp add: txWeight_def estimator_constants Let_def)

lemma vsize_pos: "0 < VSize.value (vsize s)"
  using txWeight_ge [of s] unfolding value_vsize by linarith

text \<open>
  Claim C8. From any estimator state, no add-input or add-output operation makes the
  vsize smaller; and adding a Taproot output (a 34-byte script) gives a strictly larger
  vsize than adding a native-segwit output (a 22-byte script) to the same state, hence a
  strictly larger fee at any equal positive rate.
\<close>

theorem vsize_monotone_and_taproot_larger:
  "VSize.value (vsize s) \<le> VSize.value (vsize (apply_op x s))
   \<and> VSize.value (vsize (addOutputScript 22 s)) < VSize.value (vsize (addOutputScript 34 s))
   \<and> VSize.value (vsize (addP2WPKHOutput s)) < VSize.value (vsize (addP2TROutput s))
   \<and> (0 < rate \<longrightarrow>
        VSize.fee (vsize (addOutputScript 22 s)) rate < VSize.fee (vsize (addOutputScript 34 s)) rate
      \<and> VSize.fee (vsize (addP2WPKHOutput s)) rate < VSize.fee (vsize (addP2TROutput s)) rate)"
  by (simp add: vsize_apply_op P2TR_exceeds_P2WPKH script34_exceeds_script22 fee_vsize)

theorem vsize_monotone_and_taproot_larger_witness:
  "VSize.value (vsize create) \<le> VSize.value (vsize (apply_op (KeySpendInput True) create))
   \<and> VSize.value (vsize (addOutputScript 22 create)) < VSize.value (vsize (addOutputScript 34 create))
   \<and> VSize.value (vsize (addP2WPKHOutput create)) < VSize.value (vsize (addP2TROutput create))
   \<and> (0::int) < 3
   \<and> VSize.fee (vsize (addOutputScript 22 create)) 3 < VSize.fee (vsize (addOutputScript 34 create)) 3
   \<and> VSize.fee (vsize (addP2WPKHOutput create)) 3 < VSize.fee (vsize (addP2TROutput create)) 3
   \<and> VSize.fee (vsize (addOutputScript 22 create)) 3 = 129
   \<and> VSize.fee (vsize (addOutputScript 34 create)) 3 = 165"
  using vsize_monotone_and_taproot_larger [of create "KeySpendInput True" 3]
  by (simp add: value_vsize fee_vsize txWeight_def estimator_ops estimator_constants Let_def getVarIntSize_def create_def)

section \<open>Properties of coin selection\<close>

lemma num_cmp_Number [simp]:
  "num_lt (Finite a) (Finite b) = (a < b)"
  "num_gt (Finite a) (Finite b) = (b < a)"
  "num_le (Finite a) (Finite b) = (a \<le> b)"
  "num_ge (Finite a) (Finite b) = (b \<le> a)"
  "num_eq (Finite a) (Finite b) = (a = b)"
  by (auto simp: num_gt_def num_le_def num_ge_def num_eq_def)

lemma sum_values_append: "sum_values (xs @ ys) = sum_values xs + sum_values ys"
  by (simp add: sum_values_def)

lemma sum_values_sortedCoins: "sum_values (sortedCoins coins) = sum_values coins"
proof -
  have "mset (sortedCoins coins) = mset coins"
    by (simp add: sortedCoins_def)
  then have "sum_mset (image_mset Coin.value (mset (sortedCoins coins)))
             = sum_mset (image_mset Coin.value (mset coins))"
    by simp
  then show ?thesis
    unfolding sum_values_def by (simp only: mset_map [symmetric] sum_mset_sum_list)
qed

lemma select_loop_sum:
  "select_loop fc t xs acc (sum_values acc) = (acc', s') \<Longrightarrow> s' = sum_values acc'"
proof (induction xs arbitrary: acc)
  case Nil
  then show ?case by auto
next
  case (Cons x xs)
  have step: "sum_values acc + Coin.value x = sum_values (acc @ [x])"
    by (simp add: sum_values_def)
  show ?case
  proof (cases "stopping_rule fc (sum_values (acc @ [x])) t")
    case True
    with Cons.prems show ?thesis
      by (auto simp add: Let_def step)
  next
    case False
    with Cons.prems have "select_loop fc t xs (acc @ [x]) (sum_values (acc @ [x])) = (acc', s')"
      by (simp add: Let_def step)
    then show ?thesis by (rule Cons.IH)
  qed
qed

lemma select_loop_reaches:
  "select_loop False (Number t) xs acc s = (acc', s') \<Longrightarrow> t \<le> s + sum_values xs \<Longrightarrow> t \<le> s'"
proof (induction xs arbitrary: acc s)
  case Nil
  then show ?case by (simp add: sum_values_def)
next
  case (Cons x xs)
  then show ?case
    by (auto simp: Let_def sum_values_def stopping_rule_def split: if_splits)
qed

lemma select_loop_exceeds:
  "select_loop True (Number t) xs acc s = (acc', s') \<Longrightarrow> t < s + sum_values xs \<Longrightarrow> t < s'"
proof (induction xs arbitrary: acc s)
  case Nil
  then show ?case by (simp add: sum_values_def)
next
  case (Cons x xs)
  then show ?case
    by (auto simp: Let_def sum_values_def stopping_rule_def split: if_splits)
qed

lemma select_loop_forced_reaches:
  "select_loop True (Number t) xs acc s = (acc', s') \<Longrightarrow> t \<le> s + sum_values xs \<Longrightarrow> t \<le> s'"
proof (induction xs arbitrary: acc s)
  case Nil
  then show ?case by (simp add: sum_values_def)
next
  case (Cons x xs)
  then show ?case
    by (auto simp: Let_def sum_values_def stopping_rule_def split: if_splits)
qed

lemma BigInt_Number_diff: "BigInt (num_sub (Number a) (Number b)) = Inr (a - b)"
proof -
  have "num_sub (Number a) (Number b) = toDouble (of_int a - of_int b)"
    by (simp add: num_sub_def)
  then show ?thesis by simp
qed

lemma selectCoins_covers:
  assumes "0 \<le> t" and "t \<le> sum_values coins"
  shows "\<exists>sel. selectCoins coins (Number t) forceChange = Inr sel
           \<and> t \<le> sum_values (inputs sel)
           \<and> changeAmount sel = sum_values (inputs sel) - t
           \<and> (forceChange \<and> 0 < t \<and> t < sum_values coins \<longrightarrow> t < sum_values (inputs sel))"
proof (cases "t = 0")
  case True
  then show ?thesis
    by (simp add: selectCoins_def sum_values_def)
next
  case False
  with assms have pos: "0 < t" by simp
  obtain acc' s' where loop:
    "select_loop forceChange (Number t) (sortedCoins coins) [] 0 = (acc', s')"
    by (cases "select_loop forceChange (Number t) (sortedCoins coins) [] 0") auto
  have "select_loop forceChange (Number t) (sortedCoins coins) [] (sum_values []) = (acc', s')"
    using loop by (simp add: sum_values_def)
  then have s': "s' = sum_values acc'"
    by (rule select_loop_sum)
  have total: "t \<le> 0 + sum_values (sortedCoins coins)"
    using assms by (simp add: sum_values_sortedCoins)
  have reach: "t \<le> s'"
  proof (cases forceChange)
    case True
    with loop total show ?thesis by (auto dest: select_loop_forced_reaches)
  next
    case False
    with loop total show ?thesis by (auto dest: select_loop_reaches)
  qed
  have strict: "t < s'" if "forceChange" "t < sum_values coins"
  proof -
    from that have "t < 0 + sum_values (sortedCoins coins)"
      by (simp add: sum_values_sortedCoins)
    with loop that(1) show ?thesis by (auto dest: select_loop_exceeds)
  qed
  show ?thesis
    using pos loop s' reach strict
    by (auto simp: selectCoins_def BigInt_Number_diff)
qed

lemma select_loop_reaches_rat:
  "select_loop fc (Finite r) xs acc s = (acc', s') \<Longrightarrow> r \<le> of_int (s + sum_values xs)
   \<Longrightarrow> r \<le> of_int s'"
proof (induction xs arbitrary: acc s)
  case Nil
  then show ?case by (simp add: sum_values_def)
next
  case (Cons x xs)
  then show ?case
    by (auto simp: Let_def sum_values_def stopping_rule_def add.assoc split: if_splits)
qed

lemma num_lt_Finite_mono: "num_lt (Finite a) t \<Longrightarrow> b \<le> a \<Longrightarrow> num_lt (Finite b) t"
  by (cases t) auto

lemma integral_diff:
  "q = rat_of_int \<lfloor>q\<rfloor> \<Longrightarrow> rat_of_int s - q = rat_of_int \<lfloor>rat_of_int s - q\<rfloor>"
  by (metis floor_of_int of_int_diff)

lemma not_stopping_rule: "num_lt (Number s) t \<Longrightarrow> \<not> stopping_rule fc s t"
  by (cases t) (auto simp: stopping_rule_def num_gt_def num_ge_def num_le_def)

lemma sum_values_nonneg: "\<forall>c\<in>set xs. 0 \<le> Coin.value c \<Longrightarrow> 0 \<le> sum_values xs"
  by (induction xs) (auto simp: sum_values_def)

lemma select_loop_exhausts:
  "\<forall>c\<in>set xs. 0 \<le> Coin.value c \<Longrightarrow> num_lt (Number (s + sum_values xs)) t
   \<Longrightarrow> select_loop fc t xs acc s = (acc @ xs, s + sum_values xs)"
proof (induction xs arbitrary: acc s)
  case Nil
  then show ?case by (simp add: sum_values_def)
next
  case (Cons x xs)
  have nn: "0 \<le> sum_values xs"
    using Cons.prems(1) by (simp add: sum_values_nonneg)
  have eq: "s + sum_values (x # xs) = (s + Coin.value x) + sum_values xs"
    by (simp add: sum_values_def)
  have "num_lt (Number (s + Coin.value x)) t"
    using Cons.prems(2) nn unfolding eq
    by (auto intro: num_lt_Finite_mono)
  then have ns: "\<not> stopping_rule fc (s + Coin.value x) t"
    by (rule not_stopping_rule)
  have "select_loop fc t xs (acc @ [x]) (s + Coin.value x)
        = ((acc @ [x]) @ xs, (s + Coin.value x) + sum_values xs)"
    using Cons.prems by (intro Cons.IH) (simp_all add: eq)
  with ns show ?case
    by (simp add: Let_def eq)
qed

lemma set_sortedCoins: "set (sortedCoins coins) = set coins"
  by (simp add: sortedCoins_def)

lemma selectCoins_insufficient:
  assumes nn: "\<forall>c\<in>set coins. 0 \<le> Coin.value c"
    and gt: "num_gt t (Number (sum_values coins))"
  shows "selectCoins coins t fc = Inl InsufficientFunds"
proof -
  have lt: "num_lt (Number (0 + sum_values (sortedCoins coins))) t"
    using gt by (simp add: num_gt_def sum_values_sortedCoins)
  have loop: "select_loop fc t (sortedCoins coins) [] 0
        = ([] @ sortedCoins coins, 0 + sum_values (sortedCoins coins))"
    using nn lt by (intro select_loop_exhausts) (simp_all add: set_sortedCoins)
  have tot: "0 \<le> sum_values coins"
    using nn by (rule sum_values_nonneg)
  show ?thesis
    using gt tot loop
    by (cases t) (auto simp: selectCoins_def num_gt_def sum_values_sortedCoins num_eq_def)
qed

lemma BigInt_error: "BigInt x = Inl e \<Longrightarrow> e = BigIntRangeError"
  by (cases x) (auto split: if_splits)

lemma BigInt_integral_diff:
  assumes "q = rat_of_int \<lfloor>q\<rfloor>"
  shows "BigInt (num_sub (Number s) (Finite q)) = Inr (s - \<lfloor>q\<rfloor>)"
proof -
  have "num_sub (Number s) (Finite q) = num_sub (Number s) (Number \<lfloor>q\<rfloor>)"
    using assms by simp
  then show ?thesis by (simp only: BigInt_Number_diff)
qed

lemma selectCoins_errors:
  "selectCoins coins t fc = Inl e \<Longrightarrow>
     e = TargetAmountIsNaN \<and> isNaN t
   \<or> e = TargetAmountIsNegative \<and> num_lt t (Number 0)
   \<or> e = InsufficientFunds \<and> num_gt t (Number (sum_values coins))
   \<or> e = BigIntRangeError \<and> (\<exists>r. t = Finite r \<and> 0 < r \<and> r \<noteq> of_int \<lfloor>r\<rfloor>)"
proof -
  assume r: "selectCoins coins t fc = Inl e"
  obtain acc' s' where loop: "select_loop fc t (sortedCoins coins) [] 0 = (acc', s')"
    by (cases "select_loop fc t (sortedCoins coins) [] 0") auto
  show ?thesis
  proof (cases t)
    case NaN
    with r show ?thesis by (simp add: selectCoins_def)
  next
    case PosInfinity
    with r loop show ?thesis
      by (auto simp: selectCoins_def num_eq_def num_gt_def num_sub_def split: if_splits)
  next
    case NegInfinity
    with r show ?thesis by (simp add: selectCoins_def)
  next
    case (Finite q)
    have short: "rat_of_int (sum_values coins) < q" if "rat_of_int s' < q"
    proof (rule ccontr)
      assume "\<not> rat_of_int (sum_values coins) < q"
      then have "q \<le> of_int (0 + sum_values (sortedCoins coins))"
        by (simp add: sum_values_sortedCoins)
      with loop have "q \<le> of_int s'"
        unfolding Finite by (rule select_loop_reaches_rat)
      with that show False by simp
    qed
    show ?thesis
    proof (cases "q < 0")
      case True
      with r Finite show ?thesis by (simp add: selectCoins_def)
    next
      case nonneg: False
      show ?thesis
      proof (cases "q = 0")
        case True
        with r Finite show ?thesis by (simp add: selectCoins_def)
      next
        case nonzero: False
        with nonneg have pos: "0 < q" by simp
        show ?thesis
        proof (cases "rat_of_int s' = q")
          case True
          with r Finite loop nonneg nonzero show ?thesis by (simp add: selectCoins_def)
        next
          case ne: False
          show ?thesis
          proof (cases "rat_of_int s' < q")
            case True
            with r Finite loop nonneg nonzero ne have "e = InsufficientFunds"
              by (simp add: selectCoins_def)
            with True Finite short show ?thesis by (simp add: num_gt_def)
          next
            case False
            with r Finite loop nonneg nonzero ne
            have big: "(case BigInt (num_sub (Number s') (Finite q)) of
                          Inl e \<Rightarrow> Inl e
                        | Inr change \<Rightarrow> Inr \<lparr>inputs = acc', changeAmount = change\<rparr>) = Inl e"
              by (simp add: selectCoins_def)
            then have err: "BigInt (num_sub (Number s') (Finite q)) = Inl e"
              by (cases "BigInt (num_sub (Number s') (Finite q))") simp_all
            then have e: "e = BigIntRangeError" by (rule BigInt_error)
            have "q \<noteq> rat_of_int \<lfloor>q\<rfloor>"
            proof
              assume "q = rat_of_int \<lfloor>q\<rfloor>"
              then have "BigInt (num_sub (Number s') (Finite q)) = Inr (s' - \<lfloor>q\<rfloor>)"
                by (rule BigInt_integral_diff)
              with err show False by simp
            qed
            with e pos Finite show ?thesis by simp
          qed
        qed
      qed
    qed
  qed
qed

section \<open>Properties of the fee-convergence loop and of bumpP2A\<close>

lemma fold_keyspend:
  "fold (\<lambda>_. addKeySpendInput True) xs s = fold apply_op (replicate (length xs) (KeySpendInput True)) s"
  by (induction xs arbitrary: s) simp_all

lemma value_vsize_run_ops:
  "VSize.value (vsize (run_ops ops)) = \<lceil>(of_nat (spec_weight ops) :: rat) / 4\<rceil>"
  by (simp add: value_vsize txWeight_run_ops ceiling_quarter)

lemma planned_estimator:
  "addOutputScript p (fold (\<lambda>_. addKeySpendInput True) xs create)
     = run_ops (planned_ops (length xs) p c False)"
  "addOutputScript c (addOutputScript p (fold (\<lambda>_. addKeySpendInput True) xs create))
     = run_ops (planned_ops (length xs) p c True)"
  by (simp_all add: run_ops_def planned_ops_def fold_keyspend)

lemma planned_vsize:
  "VSize.value (vsize (addOutputScript p (fold (\<lambda>_. addKeySpendInput True) xs create)))
     = \<lceil>(of_nat (spec_weight (planned_ops (length xs) p c False)) :: rat) / 4\<rceil>"
  "VSize.value (vsize (addOutputScript c
       (addOutputScript p (fold (\<lambda>_. addKeySpendInput True) xs create))))
     = \<lceil>(of_nat (spec_weight (planned_ops (length xs) p c True)) :: rat) / 4\<rceil>"
proof -
  show "VSize.value (vsize (addOutputScript p (fold (\<lambda>_. addKeySpendInput True) xs create)))
     = \<lceil>(of_nat (spec_weight (planned_ops (length xs) p c False)) :: rat) / 4\<rceil>"
    by (simp only: planned_estimator(1) [where c = c] value_vsize_run_ops)
  show "VSize.value (vsize (addOutputScript c
       (addOutputScript p (fold (\<lambda>_. addKeySpendInput True) xs create))))
     = \<lceil>(of_nat (spec_weight (planned_ops (length xs) p c True)) :: rat) / 4\<rceil>"
    by (simp only: planned_estimator(2) value_vsize_run_ops)
qed

lemma ceil_double_product_eq:
  "num_ceil (num_mul (Number v) feeRate) = ceil_double_product v feeRate"
proof (cases feeRate)
  case (Finite r)
  then show ?thesis
    by (cases "toDouble (rat_of_int v * r)") simp_all
qed auto

lemma estimate_loop_refines:
  "i + n = MAX_ITERATIONS \<Longrightarrow>
   estimate_loop lib this d coins amount feeRate r i f
   = sendPlanner_spec lib this d coins amount feeRate r n f"
proof (induction n arbitrary: i f)
  case 0
  then show ?case
    by (subst estimate_loop.simps) simp
next
  case (Suc n)
  then have i: "i < MAX_ITERATIONS" and nxt: "(i + 1) + n = MAX_ITERATIONS"
    by simp_all
  note IH = Suc.IH [OF nxt]
  show ?case
  proof (cases "selectCoins coins (num_add amount f) False")
    case (Inl e)
    with i show ?thesis
      by (subst estimate_loop.simps) simp
  next
    case sel: (Inr selected)
    show ?thesis
    proof (cases "decodeAddress lib r")
      case (Inl e)
      with i sel show ?thesis
        by (subst estimate_loop.simps) (simp add: addOutputAddress_def)
    next
      case pay: (Inr p)
      show ?thesis
      proof (cases "changeAmount selected \<ge> d")
        case False
        with i sel pay show ?thesis
          by (subst estimate_loop.simps)
             (simp add: addOutputAddress_def Let_def IH [simplified] planned_vsize(1) [where c = 0]
                ceil_double_product_eq)
      next
        case True
        show ?thesis
        proof (cases "decodeAddress lib (address this)")
          case (Inl e)
          with i sel pay True show ?thesis
            by (subst estimate_loop.simps) (simp add: addOutputAddress_def)
        next
          case (Inr c)
          with i sel pay True show ?thesis
            by (subst estimate_loop.simps)
               (simp add: addOutputAddress_def Let_def IH [simplified] planned_vsize(2)
                  ceil_double_product_eq)
        qed
      qed
    qed
  qed
qed

text \<open>
  Claim C4, as amended. \<open>estimateFeesAndSelectCoins\<close> is the bounded fixed-point
  iteration of the specification, started with fee 0 and capped at 10 iterations: each
  iteration selects coins for amount + fee, estimates one payment output plus a change
  output only when the change is at least the dust limit, takes newFee as the ceiling of
  the product of the doubles vsize and feeRate (the product rounded to the nearest
  double, not the exact product), returns the selection with fee = newFee as soon as
  newFee \<le> fee, and fails with the convergence error when the iterations are exhausted.
\<close>

theorem estimateFeesAndSelectCoins_is_sendPlanner:
  "estimateFeesAndSelectCoins lib this dust coins amount feeRate recipient
   = sendPlanner_spec lib this dust coins amount feeRate recipient 10 (Number 0)"
  unfolding estimateFeesAndSelectCoins_def
  by (rule estimate_loop_refines) (simp add: MAX_ITERATIONS_def)

lemma toDouble_fee_232: "toDouble (145 * rate16) = Finite 232"
proof -
  have "round_double (145 * rate16) = Finite (of_int 8162774324609024 * pow2 (- 45))"
    by (rule round_double_cert) (simp_all add: pow2_def rate16_def)
  moreover have "toDouble (145 * rate16) = round_double (145 * rate16)"
    by (rule toDouble_between [of 232]) (simp_all add: rate16_def)
  ultimately show ?thesis by (simp add: pow2_def)
qed

lemma exact_ceiling_233: "\<lceil>145 * rate16\<rceil> = 233"
  by (rule ceiling_unique) (simp_all add: rate16_def)

lemma example_vsize_145:
  "VSize.value (vsize (addOutputScript 34 (addOutputScript 23 (addKeySpendInput True create))))
   = 145"
  by (simp add: value_vsize txWeight_def estimator_ops estimator_constants create_def
      getVarIntSize_def Let_def)

lemma example_select:
  "selectCoins [coin ''c'' 100000] (Finite 50000) False
     = Inr \<lparr>inputs = [coin ''c'' 100000], changeAmount = 50000\<rparr>"
  "selectCoins [coin ''c'' 100000] (Finite 50232) False
     = Inr \<lparr>inputs = [coin ''c'' 100000], changeAmount = 49768\<rparr>"
  by (simp_all add: selectCoins_def sortedCoins_def stopping_rule_def num_sub_def coin_def)

lemmas eval_iteration = addOutputAddress_def example_lib23_def example_lib_def
  example_wallet_def Let_def MAX_ITERATIONS_def

lemma example_iteration_1:
  "estimate_loop example_lib23 example_wallet 546 [coin ''c'' 100000] (Number 50000)
     (Finite rate16) ''recipient'' 0 (Number 0)
   = estimate_loop example_lib23 example_wallet 546 [coin ''c'' 100000] (Number 50000)
     (Finite rate16) ''recipient'' (0 + 1) (Number 232)"
  by (subst estimate_loop.simps)
     (simp add: example_select eval_iteration example_vsize_145
        toDouble_fee_232)

lemma example_iteration_2:
  "estimate_loop example_lib23 example_wallet 546 [coin ''c'' 100000] (Number 50000)
     (Finite rate16) ''recipient'' (0 + 1) (Number 232)
   = Inr \<lparr>inputs = [coin ''c'' 100000], changeAmount = 49768, fee = Number 232\<rparr>"
  by (subst estimate_loop.simps)
     (simp add: example_select eval_iteration example_vsize_145
        toDouble_fee_232)

text \<open>
  The claim C4 as stated fails where the rounding of the product matters. With one coin
  of 100000, amount 50000, a recipient script of 23 bytes and the fee rate 1.6 (the
  double nearest to it), the estimate is 145 vbytes; the exact product is just above 232
  and its ceiling is 233, but the product of the doubles is 232, and the loop returns
  the fee 232.
\<close>

theorem estimateFees_rounds_product_counterexample:
  "estimateFeesAndSelectCoins example_lib23 example_wallet 546 [coin ''c'' 100000]
     (Number 50000) (Finite rate16) ''recipient''
   = Inr \<lparr>inputs = [coin ''c'' 100000], changeAmount = 49768, fee = Number 232\<rparr>
   \<and> VSize.value (vsize (addOutputScript 34 (addOutputScript 23
          (fold (\<lambda>_. addKeySpendInput True) [coin ''c'' 100000] create)))) = 145
   \<and> \<lceil>145 * rate16\<rceil> = 233"
proof -
  have "estimateFeesAndSelectCoins example_lib23 example_wallet 546 [coin ''c'' 100000]
          (Number 50000) (Finite rate16) ''recipient''
        = Inr \<lparr>inputs = [coin ''c'' 100000], changeAmount = 49768, fee = Number 232\<rparr>"
    unfolding estimateFeesAndSelectCoins_def
    by (rule trans [OF example_iteration_1 example_iteration_2])
  then show ?thesis
    by (simp add: example_vsize_145 exact_ceiling_233)
qed

section \<open>Properties of the exit-path resolver and of the session\<close>

lemma exit_loop_find: "exit_loop c t ps = List.find (matured c t) ps"
  by (induction ps) (auto simp: matured_def split: timelock_type.splits)

lemma exit_loop_None: "exit_loop c t ps = None \<longleftrightarrow> (\<forall>p\<in>set ps. \<not> matured c t p)"
  by (auto simp add: exit_loop_find find_None_iff)

lemma exit_loop_Some:
  "exit_loop c t ps = Some p \<longleftrightarrow>
     (\<exists>pre post. ps = pre @ p # post \<and> matured c t p \<and> (\<forall>q\<in>set pre. \<not> matured c t q))"
proof (induction ps)
  case Nil
  then show ?case by (simp add: exit_loop_find)
next
  case (Cons a ps)
  show ?case
  proof (cases "matured c t a")
    case True
    have "(\<exists>pre post. a # ps = pre @ p # post \<and> matured c t p \<and> (\<forall>q\<in>set pre. \<not> matured c t q))
          \<longleftrightarrow> a = p"
    proof
      assume "\<exists>pre post. a # ps = pre @ p # post \<and> matured c t p \<and> (\<forall>q\<in>set pre. \<not> matured c t q)"
      then obtain pre post where h: "a # ps = pre @ p # post" "\<forall>q\<in>set pre. \<not> matured c t q"
        by blast
      show "a = p"
      proof (cases pre)
        case Nil
        with h show ?thesis by simp
      next
        case (Cons b pre')
        with h True show ?thesis by auto
      qed
    next
      assume "a = p"
      with True show "\<exists>pre post. a # ps = pre @ p # post \<and> matured c t p \<and> (\<forall>q\<in>set pre. \<not> matured c t q)"
        by (intro exI [of _ "[]"] exI [of _ ps]) simp
    qed
    with True show ?thesis by (simp add: exit_loop_find)
  next
    case False
    have "(\<exists>pre post. a # ps = pre @ p # post \<and> matured c t p \<and> (\<forall>q\<in>set pre. \<not> matured c t q))
          \<longleftrightarrow> (\<exists>pre post. ps = pre @ p # post \<and> matured c t p \<and> (\<forall>q\<in>set pre. \<not> matured c t q))"
    proof
      assume "\<exists>pre post. a # ps = pre @ p # post \<and> matured c t p \<and> (\<forall>q\<in>set pre. \<not> matured c t q)"
      then obtain pre post where h: "a # ps = pre @ p # post" "matured c t p" "\<forall>q\<in>set pre. \<not> matured c t q"
        by blast
      show "\<exists>pre post. ps = pre @ p # post \<and> matured c t p \<and> (\<forall>q\<in>set pre. \<not> matured c t q)"
      proof (cases pre)
        case Nil
        with h False show ?thesis by simp
      next
        case (Cons b pre')
        with h show ?thesis by auto
      qed
    next
      assume "\<exists>pre post. ps = pre @ p # post \<and> matured c t p \<and> (\<forall>q\<in>set pre. \<not> matured c t q)"
      then obtain pre post where h: "ps = pre @ p # post" "matured c t p" "\<forall>q\<in>set pre. \<not> matured c t q"
        by blast
      with False show "\<exists>pre post. a # ps = pre @ p # post \<and> matured c t p \<and> (\<forall>q\<in>set pre. \<not> matured c t q)"
        by (intro exI [of _ "a # pre"] exI [of _ post]) simp
    qed
    with False Cons.IH show ?thesis by (simp add: exit_loop_find)
  qed
qed

text \<open>
  Claim C6. \<open>availableExitPath\<close> returns the first exit path, in declared order, whose
  timelock is satisfied: no path before it has matured and it has; it returns none
  exactly when no path has matured.
\<close>

theorem availableExitPath_first_matured:
  "(availableExitPath confirmedAt tip vtxo = None
      \<longleftrightarrow> (\<forall>p\<in>set (exitPaths (tapTree vtxo)). \<not> matured confirmedAt tip p))
   \<and> (availableExitPath confirmedAt tip vtxo = Some p
      \<longleftrightarrow> (\<exists>pre post. exitPaths (tapTree vtxo) = pre @ p # post
            \<and> matured confirmedAt tip p
            \<and> (\<forall>q\<in>set pre. \<not> matured confirmedAt tip q)))"
  unfolding availableExitPath_def by (simp only: exit_loop_None exit_loop_Some)


lemma scan_Completed:
  "scan ex ch n = Completed \<longleftrightarrow> (\<forall>j<n. passed ex (ch ! j))"
proof (induction n)
  case 0
  show ?case by simp
next
  case (Suc n)
  show ?case
    by (auto simp: Let_def Suc.IH passed_def skipped_def found_confirmed_def less_Suc_eq
        split: sum.splits)
qed

lemma above_passed_top [simp]: "above_passed ex ch n (Suc n)"
  by (auto simp add: above_passed_def)

lemma above_passed_Suc:
  "i < n \<Longrightarrow> above_passed ex ch i (Suc n) \<longleftrightarrow> above_passed ex ch i n \<and> passed ex (ch ! n)"
  by (auto simp: above_passed_def less_Suc_eq)

lemma node_cases:
  obtains (pass) "passed ex c"
  | (unconf) "\<not> skipped c" "found_unconfirmed ex c" "\<not> passed ex c"
  | (fail) "\<not> skipped c" "lookup_fails ex c" "\<not> passed ex c"
  by (cases "getTxStatus ex (chain_txid c)")
     (auto simp: passed_def found_confirmed_def found_unconfirmed_def lookup_fails_def)

lemma scan_pass: "passed ex (ch ! n) \<Longrightarrow> scan ex ch (Suc n) = scan ex ch n"
  by (auto simp: passed_def skipped_def found_confirmed_def Let_def split: sum.splits)

lemma scan_unconf:
  "\<not> skipped (ch ! n) \<Longrightarrow> found_unconfirmed ex (ch ! n)
   \<Longrightarrow> scan ex ch (Suc n) = Wait (chain_txid (ch ! n))"
  by (auto simp: skipped_def found_unconfirmed_def Let_def split: sum.splits)

lemma scan_fail:
  "\<not> skipped (ch ! n) \<Longrightarrow> lookup_fails ex (ch ! n) \<Longrightarrow> scan ex ch (Suc n) = Broadcast (ch ! n)"
  by (auto simp: skipped_def lookup_fails_def Let_def split: sum.splits)

lemma exclusive:
  "found_unconfirmed ex c \<Longrightarrow> \<not> lookup_fails ex c"
  "found_unconfirmed ex c \<Longrightarrow> \<not> found_confirmed ex c"
  "lookup_fails ex c \<Longrightarrow> \<not> found_confirmed ex c"
  by (auto simp: found_confirmed_def found_unconfirmed_def lookup_fails_def split: sum.splits)

lemma scan_Wait:
  "scan ex ch n = Wait t \<longleftrightarrow>
     (\<exists>i<n. above_passed ex ch i n \<and> \<not> skipped (ch ! i)
            \<and> found_unconfirmed ex (ch ! i) \<and> t = chain_txid (ch ! i))"
proof (induction n)
  case 0
  show ?case by simp
next
  case (Suc n)
  show ?case
  proof (cases ex "ch ! n" rule: node_cases)
    case pass
    then have np: "\<not> (\<not> skipped (ch ! n) \<and> found_unconfirmed ex (ch ! n))"
      by (auto simp: passed_def dest: exclusive)
    show ?thesis
      unfolding scan_pass [OF pass] Suc.IH
      using pass np by (auto simp: less_Suc_eq above_passed_Suc)
  next
    case unconf
    then show ?thesis
      unfolding scan_unconf [OF unconf(1,2)]
      by (auto simp: less_Suc_eq above_passed_Suc)
  next
    case fail
    then have "\<not> found_unconfirmed ex (ch ! n)"
      by (auto dest: exclusive)
    with fail show ?thesis
      unfolding scan_fail [OF fail(1,2)]
      by (auto simp: less_Suc_eq above_passed_Suc)
  qed
qed

lemma scan_Broadcast:
  "scan ex ch n = Broadcast c \<longleftrightarrow>
     (\<exists>i<n. above_passed ex ch i n \<and> \<not> skipped (ch ! i)
            \<and> lookup_fails ex (ch ! i) \<and> c = ch ! i)"
proof (induction n)
  case 0
  show ?case by simp
next
  case (Suc n)
  show ?case
  proof (cases ex "ch ! n" rule: node_cases)
    case pass
    then have np: "\<not> (\<not> skipped (ch ! n) \<and> lookup_fails ex (ch ! n))"
      by (auto simp: passed_def dest: exclusive)
    show ?thesis
      unfolding scan_pass [OF pass] Suc.IH
      using pass np by (auto simp: less_Suc_eq above_passed_Suc)
  next
    case unconf
    then have "\<not> lookup_fails ex (ch ! n)"
      by (auto dest: exclusive)
    with unconf show ?thesis
      unfolding scan_unconf [OF unconf(1,2)]
      by (auto simp: less_Suc_eq above_passed_Suc)
  next
    case fail
    then show ?thesis
      unfolding scan_fail [OF fail(1,2)]
      by (auto simp: less_Suc_eq above_passed_Suc)
  qed
qed

lemma above_passed_drop:
  "i < length ch \<Longrightarrow> above_passed ex ch i (length ch) \<longleftrightarrow> (\<forall>c\<in>set (drop (Suc i) ch). passed ex c)"
proof
  assume i: "i < length ch" and a: "above_passed ex ch i (length ch)"
  show "\<forall>c\<in>set (drop (Suc i) ch). passed ex c"
  proof
    fix c assume "c \<in> set (drop (Suc i) ch)"
    then obtain k where k: "k < length ch - Suc i" "c = drop (Suc i) ch ! k"
      by (auto simp: in_set_conv_nth)
    then have "c = ch ! (Suc i + k)" by simp
    moreover have "i < Suc i + k" "Suc i + k < length ch" using k by auto
    ultimately show "passed ex c" using a by (simp add: above_passed_def)
  qed
next
  assume i: "i < length ch" and d: "\<forall>c\<in>set (drop (Suc i) ch). passed ex c"
  show "above_passed ex ch i (length ch)"
    unfolding above_passed_def
  proof (intro allI impI)
    fix j assume j: "i < j \<and> j < length ch"
    then have "ch ! j = drop (Suc i) ch ! (j - Suc i)" by simp
    moreover have "j - Suc i < length (drop (Suc i) ch)" using j by auto
    ultimately have "ch ! j \<in> set (drop (Suc i) ch)"
      by (metis nth_mem)
    with d show "passed ex (ch ! j)" by blast
  qed
qed

lemma all_passed_nth: "(\<forall>j<length ch. passed ex (ch ! j)) \<longleftrightarrow> (\<forall>c\<in>set ch. passed ex c)"
  by (metis in_set_conv_nth)

lemma unroll_step_UNROLL:
  "unroll_step lib this c = Inr (s, a) \<Longrightarrow> \<exists>tx pkg. s = UNROLL tx pkg \<and> a = DoUnroll pkg"
  unfolding unroll_step_def
  by (cases "getVirtualTxs (indexer this) [chain_txid c]")
     (auto split: if_splits sum.splits)

lemma unroll_step_explorer:
  "unroll_step lib (this\<lparr>explorer := ex\<rparr>) c = unroll_step lib this c"
  by (simp add: unroll_step_def cong: sum.case_cong if_cong)

lemma next_DONE:
  "Session_next lib this = Inr (DONE v, a) \<longleftrightarrow>
     v = txid (toUnroll this) \<and> a = DoNothing \<and> (\<forall>c\<in>set (chain this). passed (explorer this) c)"
proof (cases "scan (explorer this) (chain this) (length (chain this))")
  case (Wait t)
  then have "\<not> (\<forall>c\<in>set (chain this). passed (explorer this) c)"
    using scan_Completed [of "explorer this" "chain this" "length (chain this)"]
    by (simp add: all_passed_nth)
  with Wait show ?thesis by (simp add: Session_next_def)
next
  case (Broadcast c)
  then have "\<not> (\<forall>c\<in>set (chain this). passed (explorer this) c)"
    using scan_Completed [of "explorer this" "chain this" "length (chain this)"]
    by (simp add: all_passed_nth)
  with Broadcast show ?thesis
    by (auto simp add: Session_next_def dest: unroll_step_UNROLL)
next
  case Completed
  then have "\<forall>c\<in>set (chain this). passed (explorer this) c"
    using scan_Completed [of "explorer this" "chain this" "length (chain this)"]
    by (simp add: all_passed_nth)
  with Completed show ?thesis by (auto simp add: Session_next_def)
qed

lemma next_WAIT:
  assumes "i < length (chain this)"
    and "\<forall>c\<in>set (drop (Suc i) (chain this)). passed (explorer this) c"
    and "\<not> skipped (chain this ! i)"
    and "found_unconfirmed (explorer this) (chain this ! i)"
  shows "Session_next lib this
         = Inr (WAIT (chain_txid (chain this ! i)), DoWait (chain_txid (chain this ! i)))"
proof -
  have "above_passed (explorer this) (chain this) i (length (chain this))"
    using assms(1,2) by (simp add: above_passed_drop)
  with assms have "scan (explorer this) (chain this) (length (chain this))
                   = Wait (chain_txid (chain this ! i))"
    unfolding scan_Wait by blast
  then show ?thesis by (simp add: Session_next_def)
qed

text \<open>
  Claim C5. \<open>next()\<close> scans from the highest index down: when every node above index
  \<open>i\<close> is skipped (COMMITMENT, UNSPECIFIED) or found confirmed, and node \<open>i\<close> is not
  skipped and is found unconfirmed, the step is WAIT for its txid; and the step is DONE,
  with the txid of the original outpoint and the empty action, exactly when every node
  of the chain is skipped or found confirmed.
\<close>

theorem next_scans_from_root:
  "(Session_next lib this = Inr (DONE v, a) \<longleftrightarrow>
       v = txid (toUnroll this) \<and> a = DoNothing
       \<and> (\<forall>c\<in>set (chain this). passed (explorer this) c))
   \<and> (i < length (chain this)
       \<and> (\<forall>c\<in>set (drop (Suc i) (chain this)). passed (explorer this) c)
       \<and> \<not> skipped (chain this ! i)
       \<and> found_unconfirmed (explorer this) (chain this ! i)
      \<longrightarrow> Session_next lib this
           = Inr (WAIT (chain_txid (chain this ! i)), DoWait (chain_txid (chain this ! i))))"
proof (intro conjI impI)
  show "Session_next lib this = Inr (DONE v, a) \<longleftrightarrow>
       v = txid (toUnroll this) \<and> a = DoNothing
       \<and> (\<forall>c\<in>set (chain this). passed (explorer this) c)"
    by (rule next_DONE)
next
  assume "i < length (chain this)
       \<and> (\<forall>c\<in>set (drop (Suc i) (chain this)). passed (explorer this) c)
       \<and> \<not> skipped (chain this ! i)
       \<and> found_unconfirmed (explorer this) (chain this ! i)"
  then show "Session_next lib this
           = Inr (WAIT (chain_txid (chain this ! i)), DoWait (chain_txid (chain this ! i)))"
    by (intro next_WAIT) simp_all
qed

lemma scan_as_not_found: "scan (as_not_found ex) ch n = scan ex ch n"
  by (induction n) (auto simp: as_not_found_def Let_def split: sum.splits)

lemma next_as_not_found:
  "Session_next lib (this\<lparr>explorer := as_not_found (explorer this)\<rparr>) = Session_next lib this"
  by (simp add: Session_next_def scan_as_not_found unroll_step_explorer
      cong: scan_result.case_cong)

lemma next_lookup_fails:
  assumes "i < length (chain this)"
    and "\<forall>c\<in>set (drop (Suc i) (chain this)). passed (explorer this) c"
    and "\<not> skipped (chain this ! i)"
    and "lookup_fails (explorer this) (chain this ! i)"
  shows "scan (explorer this) (chain this) (length (chain this)) = Broadcast (chain this ! i)"
proof -
  have "above_passed (explorer this) (chain this) i (length (chain this))"
    using assms(1,2) by (simp add: above_passed_drop)
  with assms show ?thesis
    unfolding scan_Broadcast by blast
qed

lemma next_error_not_from_scan:
  "Session_next lib this = Inl e \<Longrightarrow>
     (\<exists>c. scan (explorer this) (chain this) (length (chain this)) = Broadcast c)"
  by (cases "scan (explorer this) (chain this) (length (chain this))")
     (auto simp: Session_next_def)

section \<open>Evaluations on the example data\<close>

lemmas example_defs = coin_def failing_lookup_def example_provider_def example_tx_def
  example_lib_def example_wallet_def example_session_def status_at_def mempool_provider_def
  confirmed_provider_def path144_def path300_def example_vtxo_def

lemma sorted_single: "sortedCoins [c] = [c]"
  by (simp add: sortedCoins_def)

lemma example_child:
  "build_child example_lib 240 example_wallet (example_tx 2)
   = Inr \<lparr>version = 3,
          tx_inputs = [emptyInput ''parent'' 1,
                       (emptyInput ''c1'' 0)
                         \<lparr>witnessUtxo := Some (''script'', 1000),
                          tapInternalKey := Some ''key''\<rparr>],
          tx_outputs = [(''addr'', 986)]\<rparr>"
  by (simp add: build_child_def Let_def example_defs addOutputAddress_def value_vsize
      txWeight_def estimator_ops estimator_constants create_def getVarIntSize_def
      flooredFeeRate_def MIN_FEE_RATE_def selectCoins_def sortedCoins_def stopping_rule_def
      num_sub_def tx_addOutputAddress_def addInput_def walletInput_def emptyInput_def)

text \<open>
  The claim C1 as stated fails: with a provider whose submission fails, \<open>bumpP2A\<close>
  still succeeds and returns the package it built.
\<close>

theorem bumpP2A_swallows_failure:
  "broadcastTransaction (provider example_wallet) [''parent'', ''child'']
     = Inl (ProviderError NetworkFailure)
   \<and> bumpP2A example_lib 240 example_wallet (example_tx 2) = Inr (''parent'', ''child'')"
  by (simp add: bumpP2A_def example_child) (simp add: example_defs)

text \<open>
  The claim C2 as stated fails: a network failure of \<open>getTxStatus\<close> during the scan does
  not propagate out of \<open>next()\<close>; the node becomes the one to broadcast and the step is
  UNROLL.
\<close>

theorem next_swallows_network_failure:
  "getTxStatus (explorer example_session) ''leaf'' = Inl (ProviderError NetworkFailure)
   \<and> Session_next example_lib example_session
       = Inr (UNROLL (example_tx 2) (''parent'', ''child''), DoUnroll (''parent'', ''child''))"
  by (simp add: Session_next_def unroll_step_def example_defs Let_def)

section \<open>The claims on coin selection\<close>

text \<open>
  Claim C3, as amended. For every coin list and every integer target with
  \<open>0 \<le> target \<le> sum of the values\<close>, \<open>selectCoins\<close> returns inputs whose values sum to
  at least the target, with \<open>changeAmount = sum(inputs) - target\<close>; with \<open>forceChange\<close>
  set and \<open>0 < target < sum of the values\<close> the sum is strictly greater than the target.
\<close>

theorem selectCoins_covers_target:
  assumes "0 \<le> t" and "t \<le> sum_values coins"
  shows "\<exists>sel. selectCoins coins (Number t) forceChange = Inr sel
           \<and> t \<le> sum_values (inputs sel)
           \<and> changeAmount sel = sum_values (inputs sel) - t
           \<and> (forceChange \<and> 0 < t \<and> t < sum_values coins \<longrightarrow> t < sum_values (inputs sel))"
  using assms by (rule selectCoins_covers)

theorem selectCoins_covers_target_witness:
  "(0::int) \<le> 4 \<and> 4 \<le> sum_values [coin ''a'' 3, coin ''b'' 5]
   \<and> (\<exists>sel. selectCoins [coin ''a'' 3, coin ''b'' 5] (Number 4) True = Inr sel
           \<and> 4 \<le> sum_values (inputs sel)
           \<and> changeAmount sel = sum_values (inputs sel) - 4
           \<and> 4 < sum_values (inputs sel))"
proof -
  have h: "(0::int) \<le> 4" "4 \<le> sum_values [coin ''a'' 3, coin ''b'' 5]"
    by (simp_all add: sum_values_def coin_def)
  show ?thesis
    using h selectCoins_covers_target [OF h, of True]
    by (simp add: sum_values_def coin_def)
qed

text \<open>
  The claim as stated fails with \<open>forceChange\<close> set: for target 0 the selection is empty, and
  for a target equal to the sum of all coins the selection sums to the target exactly,
  with no change.
\<close>

theorem selectCoins_forceChange_counterexample:
  "(0::int) \<le> sum_values [coin ''a'' 5]
   \<and> selectCoins [coin ''a'' 5] (Number 0) True = Inr \<lparr>inputs = [], changeAmount = 0\<rparr>
   \<and> \<not> 0 < sum_values []
   \<and> (5::int) \<le> sum_values [coin ''a'' 5]
   \<and> selectCoins [coin ''a'' 5] (Number 5) True
       = Inr \<lparr>inputs = [coin ''a'' 5], changeAmount = 0\<rparr>
   \<and> \<not> 5 < sum_values [coin ''a'' 5]"
  by (simp add: selectCoins_def sortedCoins_def stopping_rule_def sum_values_def coin_def)

text \<open>
  Claim C9, as amended. \<open>selectCoins\<close> fails with an invalid-amount error whenever the
  target is NaN or negative; it returns empty inputs and zero change when the target is
  exactly 0; it fails with the insufficient-funds error whenever the target exceeds the
  summed value of all coins (their values being non-negative), and only when it does; it
  does not throw for a positive integer target within the sum. The one other throw is
  the range error of the conversion of the change to a big integer, which needs a
  positive target that is not an integer.
\<close>

theorem selectCoins_outcomes:
  "(isNaN t \<longrightarrow> selectCoins coins t fc = Inl TargetAmountIsNaN)
   \<and> (num_lt t (Number 0) \<longrightarrow> selectCoins coins t fc = Inl TargetAmountIsNegative)
   \<and> (t = Number 0 \<longrightarrow> selectCoins coins t fc = Inr \<lparr>inputs = [], changeAmount = 0\<rparr>)
   \<and> ((\<forall>c\<in>set coins. 0 \<le> Coin.value c) \<and> num_gt t (Number (sum_values coins))
        \<longrightarrow> selectCoins coins t fc = Inl InsufficientFunds)
   \<and> (0 < k \<and> k \<le> sum_values coins \<longrightarrow> (\<exists>sel. selectCoins coins (Number k) fc = Inr sel))
   \<and> (selectCoins coins t fc = Inl e \<longrightarrow>
          e = TargetAmountIsNaN \<and> isNaN t
        \<or> e = TargetAmountIsNegative \<and> num_lt t (Number 0)
        \<or> e = InsufficientFunds \<and> num_gt t (Number (sum_values coins))
        \<or> e = BigIntRangeError \<and> (\<exists>q. t = Finite q \<and> 0 < q \<and> q \<noteq> of_int \<lfloor>q\<rfloor>))"
proof (intro conjI impI)
  assume "isNaN t"
  then show "selectCoins coins t fc = Inl TargetAmountIsNaN"
    by (simp add: selectCoins_def)
next
  assume "num_lt t (Number 0)"
  then show "selectCoins coins t fc = Inl TargetAmountIsNegative"
    by (cases t) (simp_all add: selectCoins_def)
next
  assume "t = Number 0"
  then show "selectCoins coins t fc = Inr \<lparr>inputs = [], changeAmount = 0\<rparr>"
    by (simp add: selectCoins_def)
next
  assume "(\<forall>c\<in>set coins. 0 \<le> Coin.value c) \<and> num_gt t (Number (sum_values coins))"
  then show "selectCoins coins t fc = Inl InsufficientFunds"
    by (intro selectCoins_insufficient) simp_all
next
  assume "0 < k \<and> k \<le> sum_values coins"
  then show "\<exists>sel. selectCoins coins (Number k) fc = Inr sel"
    using selectCoins_covers [of k coins fc] by auto
next
  assume "selectCoins coins t fc = Inl e"
  then show "e = TargetAmountIsNaN \<and> isNaN t
        \<or> e = TargetAmountIsNegative \<and> num_lt t (Number 0)
        \<or> e = InsufficientFunds \<and> num_gt t (Number (sum_values coins))
        \<or> e = BigIntRangeError \<and> (\<exists>q. t = Finite q \<and> 0 < q \<and> q \<noteq> of_int \<lfloor>q\<rfloor>)"
    by (rule selectCoins_errors)
qed

theorem selectCoins_outcomes_witness:
  "isNaN NaN \<and> selectCoins [coin ''a'' 3, coin ''b'' 5] NaN False = Inl TargetAmountIsNaN
   \<and> num_lt (Number (- 1)) (Number 0)
   \<and> selectCoins [coin ''a'' 3, coin ''b'' 5] (Number (- 1)) False = Inl TargetAmountIsNegative
   \<and> selectCoins [coin ''a'' 3, coin ''b'' 5] (Number 0) False
       = Inr \<lparr>inputs = [], changeAmount = 0\<rparr>
   \<and> 0 \<le> Coin.value (coin ''a'' 3) \<and> 0 \<le> Coin.value (coin ''b'' 5)
   \<and> num_gt (Number 9) (Number (sum_values [coin ''a'' 3, coin ''b'' 5]))
   \<and> selectCoins [coin ''a'' 3, coin ''b'' 5] (Number 9) False = Inl InsufficientFunds
   \<and> (0::int) < 4 \<and> 4 \<le> sum_values [coin ''a'' 3, coin ''b'' 5]
   \<and> (\<exists>sel. selectCoins [coin ''a'' 3, coin ''b'' 5] (Number 4) False = Inr sel)"
  using selectCoins_outcomes [of NaN "[coin ''a'' 3, coin ''b'' 5]" False 4 TargetAmountIsNaN]
    selectCoins_outcomes [of "Number (- 1)" "[coin ''a'' 3, coin ''b'' 5]" False 4
      TargetAmountIsNegative]
    selectCoins_outcomes [of "Number 0" "[coin ''a'' 3, coin ''b'' 5]" False 4
      InsufficientFunds]
    selectCoins_outcomes [of "Number 9" "[coin ''a'' 3, coin ''b'' 5]" False 4
      InsufficientFunds]
  by (simp add: sum_values_def coin_def)

text \<open>
  The claim as stated fails for targets that are not finite integers: one half, with a
  coin of 1, ends in the range error of the conversion (the change, one half, is a double
  and not an integer), and an infinite target ends in the insufficient-funds error, not
  in an invalid-amount error.
\<close>

theorem selectCoins_non_integer_counterexample:
  "selectCoins [coin ''a'' 1] (Finite (1 / 2)) False = Inl BigIntRangeError
   \<and> selectCoins [coin ''a'' 1] PosInfinity False = Inl InsufficientFunds"
  by (simp add: selectCoins_def sortedCoins_def stopping_rule_def num_sub_def num_eq_def
      num_ge_def num_le_def coin_def floor_half)

text \<open>
  A target that is not an integer does not always end in the range error: the difference
  100000 - 766.9999999999999 rounds to the double 99233, and the selection is returned.
\<close>

lemma toDouble_change_99233: "toDouble (100000 - (767 - 1 / 2 ^ 43)) = Finite 99233"
proof -
  have "round_double (100000 - (767 - 1 / 2 ^ 43))
        = Finite (of_int 6819239834943488 * pow2 (- 36))"
    by (rule round_double_cert) (simp_all add: pow2_def)
  moreover have "toDouble (100000 - (767 - 1 / 2 ^ 43)) = round_double (100000 - (767 - 1 / 2 ^ 43))"
    by (rule toDouble_between [of 99233]) simp_all
  ultimately show ?thesis by (simp add: pow2_def)
qed

lemma selectCoins_rounded_change:
  "selectCoins [coin ''c'' 100000] (Finite (767 - 1 / 2 ^ 43)) False
   = Inr \<lparr>inputs = [coin ''c'' 100000], changeAmount = 99233\<rparr>"
proof -
  have "num_sub (Number 100000) (Finite (767 - 1 / 2 ^ 43)) = Finite 99233"
    using toDouble_change_99233 by (simp add: num_sub_def)
  then show ?thesis
    by (simp add: selectCoins_def sortedCoins_def stopping_rule_def coin_def)
qed

lemmas example_defs2 = example_defs example_unroll_wallet_def

section \<open>The claims on bumpP2A and on the session\<close>

lemma build_child_ignores_broadcast:
  "build_child lib a (this\<lparr>provider := (provider this)\<lparr>broadcastTransaction := b\<rparr>\<rparr>) parent
   = build_child lib a this parent"
  unfolding build_child_def Let_def
  by (simp add: walletInput_def cong: sum.case_cong if_cong)

lemma bumpP2A_returns_built_package:
  "build_child lib a this parent = Inr child
   \<Longrightarrow> bumpP2A lib a this parent = Inr (tx_hex lib parent, tx_hex lib child)"
  by (cases "broadcastTransaction (provider this) [tx_hex lib parent, tx_hex lib child]")
     (simp_all add: bumpP2A_def)

text \<open>
  Claim C1, as amended. Whenever \<open>bumpP2A\<close> has built the parent and child package, it
  returns that package, the hex of the parent and the hex of the child, whatever the
  submission to the provider does: a failure of the submission is caught and is not
  surfaced to the caller. The call fails only when building the child fails, and
  building the child does not depend on the submission.
\<close>

theorem bumpP2A_returns_package_whatever_submission:
  "(build_child lib a this parent = Inr child
      \<longrightarrow> bumpP2A lib a this parent = Inr (tx_hex lib parent, tx_hex lib child))
   \<and> (build_child lib a this parent = Inl e \<longrightarrow> bumpP2A lib a this parent = Inl e)
   \<and> build_child lib a (this\<lparr>provider := (provider this)\<lparr>broadcastTransaction := b\<rparr>\<rparr>) parent
       = build_child lib a this parent"
  by (simp add: bumpP2A_returns_built_package build_child_ignores_broadcast)
     (simp add: bumpP2A_def)

theorem bumpP2A_returns_package_whatever_submission_witness:
  "build_child example_lib 240 example_wallet (example_tx 2)
   = Inr \<lparr>version = 3,
          tx_inputs = [emptyInput ''parent'' 1,
                       (emptyInput ''c1'' 0)
                         \<lparr>witnessUtxo := Some (''script'', 1000),
                          tapInternalKey := Some ''key''\<rparr>],
          tx_outputs = [(''addr'', 986)]\<rparr>
   \<and> broadcastTransaction (provider example_wallet) [''parent'', ''child'']
       = Inl (ProviderError NetworkFailure)
   \<and> bumpP2A example_lib 240 example_wallet (example_tx 2) = Inr (''parent'', ''child'')"
  using bumpP2A_returns_package_whatever_submission
          [of example_lib 240 example_wallet "example_tx 2"
              "\<lparr>version = 3,
                tx_inputs = [emptyInput ''parent'' 1,
                             (emptyInput ''c1'' 0)
                               \<lparr>witnessUtxo := Some (''script'', 1000),
                                tapInternalKey := Some ''key''\<rparr>],
                tx_outputs = [(''addr'', 986)]\<rparr>"]
        example_child
  by (simp add: example_defs)

text \<open>
  Claim C2, as amended. During the scan every error of \<open>getTxStatus\<close>, the not-found
  signal and any other provider error alike, is intercepted and makes the node the next
  one to broadcast: \<open>next()\<close> goes on with that node, and its outcome is the same as with
  an explorer that answers every failed lookup with not-found.
\<close>

theorem scan_intercepts_every_lookup_error:
  "Session_next lib (this\<lparr>explorer := as_not_found (explorer this)\<rparr>) = Session_next lib this
   \<and> (i < length (chain this)
       \<and> (\<forall>c\<in>set (drop (Suc i) (chain this)). passed (explorer this) c)
       \<and> \<not> skipped (chain this ! i)
       \<and> getTxStatus (explorer this) (chain_txid (chain this ! i)) = Inl e
      \<longrightarrow> Session_next lib this = unroll_step lib this (chain this ! i))"
proof (intro conjI impI)
  show "Session_next lib (this\<lparr>explorer := as_not_found (explorer this)\<rparr>) = Session_next lib this"
    by (rule next_as_not_found)
next
  assume a: "i < length (chain this)
       \<and> (\<forall>c\<in>set (drop (Suc i) (chain this)). passed (explorer this) c)
       \<and> \<not> skipped (chain this ! i)
       \<and> getTxStatus (explorer this) (chain_txid (chain this ! i)) = Inl e"
  then have "lookup_fails (explorer this) (chain this ! i)"
    by (simp add: lookup_fails_def)
  with a have "scan (explorer this) (chain this) (length (chain this)) = Broadcast (chain this ! i)"
    by (intro next_lookup_fails) simp_all
  then show "Session_next lib this = unroll_step lib this (chain this ! i)"
    by (simp add: Session_next_def)
qed

theorem scan_intercepts_every_lookup_error_witness:
  "(0::nat) < length (chain example_session)
   \<and> drop (Suc 0) (chain example_session) = [chain example_session ! 1]
   \<and> passed (explorer example_session) (chain example_session ! 1)
   \<and> \<not> skipped (chain example_session ! 0)
   \<and> getTxStatus (explorer example_session) (chain_txid (chain example_session ! 0))
       = Inl (ProviderError NetworkFailure)
   \<and> Session_next example_lib example_session
       = unroll_step example_lib example_session (chain example_session ! 0)
   \<and> Session_next example_lib
        (example_session\<lparr>explorer := as_not_found (explorer example_session)\<rparr>)
       = Session_next example_lib example_session"
  using scan_intercepts_every_lookup_error
          [of example_lib example_session 0 "ProviderError NetworkFailure"]
  by (simp add: example_defs passed_def skipped_def)

theorem next_scans_from_root_witness:
  "(0::nat) < length (chain (example_session\<lparr>explorer := mempool_provider\<rparr>))
   \<and> \<not> skipped (chain example_session ! 0)
   \<and> found_unconfirmed mempool_provider (chain example_session ! 0)
   \<and> Session_next example_lib (example_session\<lparr>explorer := mempool_provider\<rparr>)
       = Inr (WAIT ''leaf'', DoWait ''leaf'')
   \<and> passed confirmed_provider (chain example_session ! 0)
   \<and> passed confirmed_provider (chain example_session ! 1)
   \<and> Session_next example_lib (example_session\<lparr>explorer := confirmed_provider\<rparr>)
       = Inr (DONE ''vtxo'', DoNothing)"
  using next_scans_from_root
          [of example_lib "example_session\<lparr>explorer := mempool_provider\<rparr>" "''vtxo''" DoNothing 0]
        next_scans_from_root
          [of example_lib "example_session\<lparr>explorer := confirmed_provider\<rparr>" "''vtxo''" DoNothing 0]
  by (simp add: example_defs passed_def skipped_def found_unconfirmed_def found_confirmed_def)

theorem availableExitPath_first_matured_witness:
  "availableExitPath \<lparr>height = 100, time = 1000\<rparr> \<lparr>height = 150, time = 1400\<rparr> (example_vtxo 1)
     = Some path300
   \<and> matured \<lparr>height = 100, time = 1000\<rparr> \<lparr>height = 150, time = 1400\<rparr> path300
   \<and> \<not> matured \<lparr>height = 100, time = 1000\<rparr> \<lparr>height = 150, time = 1400\<rparr> path144
   \<and> availableExitPath \<lparr>height = 100, time = 1000\<rparr> \<lparr>height = 244, time = 1000\<rparr> (example_vtxo 1)
     = Some path144
   \<and> exitPaths (tapTree (example_vtxo 1)) = [path144, path300]
   \<and> \<not> matured \<lparr>height = 100, time = 1000\<rparr> \<lparr>height = 243, time = 1299\<rparr> path144
   \<and> \<not> matured \<lparr>height = 100, time = 1000\<rparr> \<lparr>height = 243, time = 1299\<rparr> path300
   \<and> availableExitPath \<lparr>height = 100, time = 1000\<rparr> \<lparr>height = 243, time = 1299\<rparr> (example_vtxo 1)
     = None"
  using availableExitPath_first_matured
          [of "\<lparr>height = 100, time = 1000\<rparr>" "\<lparr>height = 150, time = 1400\<rparr>" "example_vtxo 1" path300]
        availableExitPath_first_matured
          [of "\<lparr>height = 100, time = 1000\<rparr>" "\<lparr>height = 243, time = 1299\<rparr>" "example_vtxo 1" path144]
  by (simp add: example_defs availableExitPath_def matured_def)

section \<open>The fee guard of prepareUnrollTransaction\<close>

lemma vtxo_loop_total:
  "vtxo_loop wallet tip vs (ins, tot, est) = Inr (ins', tot', est')
   \<Longrightarrow> tot' = tot + sum_list (map Coin.value vs)"
proof (induction vs arbitrary: ins tot est)
  case Nil
  then show ?case by simp
next
  case (Cons v vs)
  from Cons.prems show ?case
    by (auto split: if_splits sum.splits option.splits dest!: Cons.IH)
qed

lemma prepare_fee_guard:
  assumes "getChainTip (onchainProvider wallet) = Inr chainTip"
    and "getVtxos wallet = Inr allVtxos"
    and "vtxos = filter (\<lambda>vtxo. txid vtxo \<in> set vtxoTxIds) allVtxos"
    and "vtxo_loop wallet chainTip vtxos ([], 0, create) = Inr (ins, totalAmount, est)"
    and "getFeeRate (onchainProvider wallet) = Inr feeRate0"
    and "BigInt (flooredFeeRate minFeeRate feeRate0) = Inr rate"
    and "VSize.fee (vsize (addP2TROutput est)) rate > sum_list (map Coin.value vtxos)"
    and "vtxos \<noteq> []"
  shows "prepareUnrollTransaction lib minFeeRate wallet vtxoTxIds outputAddress
         = Inl FeeGreaterThanTotalAmount"
proof -
  have "totalAmount = sum_list (map Coin.value vtxos)"
    using vtxo_loop_total [OF assms(4)] by simp
  with assms show ?thesis
    by (simp add: prepareUnrollTransaction_def Let_def)
qed

lemma prepare_success:
  assumes "prepareUnrollTransaction lib minFeeRate wallet vtxoTxIds outputAddress = Inr signedTx"
  shows "\<exists>chainTip allVtxos ins est feeRate0 rate tx' signed.
           getChainTip (onchainProvider wallet) = Inr chainTip
         \<and> getVtxos wallet = Inr allVtxos
         \<and> vtxo_loop wallet chainTip (filter (\<lambda>vtxo. txid vtxo \<in> set vtxoTxIds) allVtxos)
               ([], 0, create)
             = Inr (ins, sum_list (map Coin.value
                          (filter (\<lambda>vtxo. txid vtxo \<in> set vtxoTxIds) allVtxos)), est)
         \<and> getFeeRate (onchainProvider wallet) = Inr feeRate0
         \<and> BigInt (flooredFeeRate minFeeRate feeRate0) = Inr rate
         \<and> tx_outputs tx'
             = [(outputAddress,
                 sum_list (map Coin.value (filter (\<lambda>vtxo. txid vtxo \<in> set vtxoTxIds) allVtxos))
                   - VSize.fee (vsize (addP2TROutput est)) rate)]
         \<and> 0 \<le> sum_list (map Coin.value (filter (\<lambda>vtxo. txid vtxo \<in> set vtxoTxIds) allVtxos))
                   - VSize.fee (vsize (addP2TROutput est)) rate
         \<and> sign lib tx' = Inr signed \<and> finalize lib signed = Inr signedTx"
proof -
  from assms obtain chainTip where tip: "getChainTip (onchainProvider wallet) = Inr chainTip"
    by (cases "getChainTip (onchainProvider wallet)") (auto simp: prepareUnrollTransaction_def)
  from assms tip obtain allVtxos where all: "getVtxos wallet = Inr allVtxos"
    by (cases "getVtxos wallet") (auto simp: prepareUnrollTransaction_def)
  define vtxos where "vtxos = filter (\<lambda>vtxo. txid vtxo \<in> set vtxoTxIds) allVtxos"
  have r1: "prepareUnrollTransaction lib minFeeRate wallet vtxoTxIds outputAddress =
     (if length vtxos = 0 then Inl NoVtxosToCompleteUnroll
      else
      case vtxo_loop wallet chainTip vtxos ([], 0, create) of
        Inl e \<Rightarrow> Inl e
      | Inr (ins, totalAmount, txWeightEstimator) \<Rightarrow>
      (case getFeeRate (onchainProvider wallet) of
        Inl e \<Rightarrow> Inl e
      | Inr feeRate0 \<Rightarrow>
      (case BigInt (flooredFeeRate minFeeRate feeRate0) of
        Inl e \<Rightarrow> Inl e
      | Inr feeRateSats \<Rightarrow>
      (if VSize.fee (vsize (addP2TROutput txWeightEstimator)) feeRateSats > totalAmount
       then Inl FeeGreaterThanTotalAmount
      else
      case tx_addOutputAddress lib outputAddress
             (totalAmount - VSize.fee (vsize (addP2TROutput txWeightEstimator)) feeRateSats)
             (fold addInput ins \<lparr>version = 2, tx_inputs = [], tx_outputs = []\<rparr>) of
        Inl e \<Rightarrow> Inl e
      | Inr tx' \<Rightarrow>
      (case sign lib tx' of
        Inl e \<Rightarrow> Inl e
      | Inr signedTx \<Rightarrow> finalize lib signedTx)))))"
    unfolding prepareUnrollTransaction_def Let_def tip all sum.case vtxos_def [symmetric]
    by (rule refl)
  from assms r1 obtain ins totalAmount est where
    loop: "vtxo_loop wallet chainTip vtxos ([], 0, create) = Inr (ins, totalAmount, est)"
    by (cases "vtxo_loop wallet chainTip vtxos ([], 0, create)") (auto split: if_splits)
  have total: "totalAmount = sum_list (map Coin.value vtxos)"
    using vtxo_loop_total [OF loop] by simp
  from assms r1 loop obtain feeRate0 where fr: "getFeeRate (onchainProvider wallet) = Inr feeRate0"
    by (cases "getFeeRate (onchainProvider wallet)") (auto split: if_splits)
  from assms r1 loop fr obtain rate where rate: "BigInt (flooredFeeRate minFeeRate feeRate0) = Inr rate"
    by (cases "BigInt (flooredFeeRate minFeeRate feeRate0)") (auto split: if_splits)
  let ?fee = "VSize.fee (vsize (addP2TROutput est)) rate"
  from assms r1 loop fr rate have le: "\<not> ?fee > totalAmount"
    by (auto split: if_splits)
  let ?tx = "fold addInput ins \<lparr>version = 2, tx_inputs = [], tx_outputs = []\<rparr>"
  from assms r1 loop fr rate le obtain tx' where
    out: "tx_addOutputAddress lib outputAddress (totalAmount - ?fee) ?tx = Inr tx'"
    by (cases "tx_addOutputAddress lib outputAddress (totalAmount - ?fee) ?tx")
       (auto split: if_splits)
  from assms r1 loop fr rate le out obtain signed where
    sg: "sign lib tx' = Inr signed"
    by (cases "sign lib tx'") (auto split: if_splits)
  from assms r1 loop fr rate le out sg have fin: "finalize lib signed = Inr signedTx"
    by (auto split: if_splits)
  have ins_out: "tx_outputs (fold addInput xs t) = tx_outputs t" for xs t
    by (induction xs arbitrary: t) (simp_all add: addInput_def)
  from out have outs: "tx_outputs tx' = [(outputAddress, totalAmount - ?fee)]"
    by (auto simp: tx_addOutputAddress_def ins_out split: sum.splits)
  show ?thesis
    using tip all loop fr rate outs le sg fin unfolding total vtxos_def
    by (intro exI conjI) (assumption | simp)+
qed

text \<open>
  Claim C10. In \<open>prepareUnrollTransaction\<close>, when every per-VTXO check has passed and the
  estimated fee exceeds the summed value of the selected VTXOs, the function throws
  before any output is added; so whenever it succeeds, the transaction handed to the
  signer has the single output \<open>totalAmount - feeAmount\<close>, which is not negative.
\<close>

theorem prepareUnroll_fee_guard:
  "(getChainTip (onchainProvider wallet) = Inr chainTip
    \<and> getVtxos wallet = Inr allVtxos
    \<and> vtxos = filter (\<lambda>vtxo. txid vtxo \<in> set vtxoTxIds) allVtxos
    \<and> vtxos \<noteq> []
    \<and> vtxo_loop wallet chainTip vtxos ([], 0, create) = Inr (ins, totalAmount, est)
    \<and> getFeeRate (onchainProvider wallet) = Inr feeRate0
    \<and> BigInt (flooredFeeRate minFeeRate feeRate0) = Inr rate
    \<and> VSize.fee (vsize (addP2TROutput est)) rate > sum_list (map Coin.value vtxos)
    \<longrightarrow> prepareUnrollTransaction lib minFeeRate wallet vtxoTxIds outputAddress
        = Inl FeeGreaterThanTotalAmount)
   \<and> (prepareUnrollTransaction lib minFeeRate wallet vtxoTxIds outputAddress = Inr signedTx
    \<longrightarrow> (\<exists>tip all ins' est' feeRate' rate' tx' signed.
           getChainTip (onchainProvider wallet) = Inr tip
         \<and> getVtxos wallet = Inr all
         \<and> vtxo_loop wallet tip (filter (\<lambda>vtxo. txid vtxo \<in> set vtxoTxIds) all)
               ([], 0, create)
             = Inr (ins', sum_list (map Coin.value
                           (filter (\<lambda>vtxo. txid vtxo \<in> set vtxoTxIds) all)), est')
         \<and> getFeeRate (onchainProvider wallet) = Inr feeRate'
         \<and> BigInt (flooredFeeRate minFeeRate feeRate') = Inr rate'
         \<and> tx_outputs tx'
             = [(outputAddress,
                 sum_list (map Coin.value (filter (\<lambda>vtxo. txid vtxo \<in> set vtxoTxIds) all))
                   - VSize.fee (vsize (addP2TROutput est')) rate')]
         \<and> 0 \<le> sum_list (map Coin.value (filter (\<lambda>vtxo. txid vtxo \<in> set vtxoTxIds) all))
                   - VSize.fee (vsize (addP2TROutput est')) rate'
         \<and> sign lib tx' = Inr signed \<and> finalize lib signed = Inr signedTx))"
proof (intro conjI impI)
  assume "getChainTip (onchainProvider wallet) = Inr chainTip
    \<and> getVtxos wallet = Inr allVtxos
    \<and> vtxos = filter (\<lambda>vtxo. txid vtxo \<in> set vtxoTxIds) allVtxos
    \<and> vtxos \<noteq> []
    \<and> vtxo_loop wallet chainTip vtxos ([], 0, create) = Inr (ins, totalAmount, est)
    \<and> getFeeRate (onchainProvider wallet) = Inr feeRate0
    \<and> BigInt (flooredFeeRate minFeeRate feeRate0) = Inr rate
    \<and> VSize.fee (vsize (addP2TROutput est)) rate > sum_list (map Coin.value vtxos)"
  then have h: "getChainTip (onchainProvider wallet) = Inr chainTip"
    "getVtxos wallet = Inr allVtxos"
    "vtxos = filter (\<lambda>vtxo. txid vtxo \<in> set vtxoTxIds) allVtxos"
    "vtxo_loop wallet chainTip vtxos ([], 0, create) = Inr (ins, totalAmount, est)"
    "getFeeRate (onchainProvider wallet) = Inr feeRate0"
    "BigInt (flooredFeeRate minFeeRate feeRate0) = Inr rate"
    "VSize.fee (vsize (addP2TROutput est)) rate > sum_list (map Coin.value vtxos)"
    "vtxos \<noteq> []"
    by blast+
  show "prepareUnrollTransaction lib minFeeRate wallet vtxoTxIds outputAddress
        = Inl FeeGreaterThanTotalAmount"
    by (rule prepare_fee_guard [OF h])
next
  assume "prepareUnrollTransaction lib minFeeRate wallet vtxoTxIds outputAddress = Inr signedTx"
  then show "\<exists>tip all ins' est' feeRate' rate' tx' signed.
           getChainTip (onchainProvider wallet) = Inr tip
         \<and> getVtxos wallet = Inr all
         \<and> vtxo_loop wallet tip (filter (\<lambda>vtxo. txid vtxo \<in> set vtxoTxIds) all)
               ([], 0, create)
             = Inr (ins', sum_list (map Coin.value
                           (filter (\<lambda>vtxo. txid vtxo \<in> set vtxoTxIds) all)), est')
         \<and> getFeeRate (onchainProvider wallet) = Inr feeRate'
         \<and> BigInt (flooredFeeRate minFeeRate feeRate') = Inr rate'
         \<and> tx_outputs tx'
             = [(outputAddress,
                 sum_list (map Coin.value (filter (\<lambda>vtxo. txid vtxo \<in> set vtxoTxIds) all))
                   - VSize.fee (vsize (addP2TROutput est')) rate')]
         \<and> 0 \<le> sum_list (map Coin.value (filter (\<lambda>vtxo. txid vtxo \<in> set vtxoTxIds) all))
                   - VSize.fee (vsize (addP2TROutput est')) rate'
         \<and> sign lib tx' = Inr signed \<and> finalize lib signed = Inr signedTx"
    by (rule prepare_success)
qed

lemmas eval_prepare = prepareUnrollTransaction_def Let_def example_defs2 availableExitPath_def
  flooredFeeRate_def value_vsize fee_vsize txWeight_def estimator_ops estimator_constants
  create_def getVarIntSize_def tx_addOutputAddress_def addInput_def emptyInput_def

lemma example_loop:
  "vtxo_loop (example_unroll_wallet v) \<lparr>height = 150, time = 1400\<rparr> [example_vtxo v]
     ([], 0, create)
   = Inr ([(emptyInput ''vtxo'' 0)
             \<lparr>tapLeafScript := [\<lparr>controlBlock = ''cb'', leafScript = ''seconds300''\<rparr>],
              sequence := Some (0xffffffff - 1),
              witnessUtxo := Some (''pk'', v)\<rparr>],
          v, addTapscriptInput 64 (length ''seconds300'') (length ''cb'') create)"
  by (simp add: example_defs2 availableExitPath_def)

theorem prepareUnroll_fee_guard_witness:
  "getChainTip (onchainProvider (example_unroll_wallet 100)) = Inr \<lparr>height = 150, time = 1400\<rparr>
   \<and> getVtxos (example_unroll_wallet 100) = Inr [example_vtxo 100]
   \<and> VSize.fee (vsize (addP2TROutput
          (addTapscriptInput 64 (length ''seconds300'') (length ''cb'') create))) 1
        > sum_list (map Coin.value [example_vtxo 100])
   \<and> prepareUnrollTransaction example_lib (Number 1) (example_unroll_wallet 100) [''vtxo'']
        ''dest'' = Inl FeeGreaterThanTotalAmount
   \<and> (\<exists>tx. prepareUnrollTransaction example_lib (Number 1) (example_unroll_wallet 1000)
              [''vtxo''] ''dest'' = Inr tx
           \<and> tx_outputs tx = [(''dest'', 875)])"
proof -
  let ?w = "example_unroll_wallet 100"
  let ?tip = "\<lparr>height = 150, time = 1400\<rparr>"
  let ?est = "addTapscriptInput 64 (length ''seconds300'') (length ''cb'') create"
  let ?ins = "[(emptyInput ''vtxo'' 0)
             \<lparr>tapLeafScript := [\<lparr>controlBlock = ''cb'', leafScript = ''seconds300''\<rparr>],
              sequence := Some (0xffffffff - 1),
              witnessUtxo := Some (''pk'', 100)\<rparr>]"
  have p1: "getChainTip (onchainProvider ?w) = Inr ?tip"
    by (simp add: example_defs2)
  have p2: "getVtxos ?w = Inr [example_vtxo 100]"
    by (simp add: example_defs2)
  have p3: "[example_vtxo 100] = filter (\<lambda>vtxo. txid vtxo \<in> set [''vtxo'']) [example_vtxo 100]"
    by (simp add: example_defs2)
  have p4: "[example_vtxo 100] \<noteq> []"
    by simp
  have p5: "vtxo_loop ?w ?tip [example_vtxo 100] ([], 0, create) = Inr (?ins, 100, ?est)"
    by (rule example_loop)
  have p6: "getFeeRate (onchainProvider ?w) = Inr (Some (Number 1))"
    by (simp add: example_defs2)
  have p7: "BigInt (flooredFeeRate (Number 1) (Some (Number 1))) = Inr 1"
    by (simp add: flooredFeeRate_def)
  have f: "VSize.fee (vsize (addP2TROutput ?est)) 1 = 125"
    by (simp add: value_vsize fee_vsize txWeight_def estimator_ops estimator_constants
        create_def getVarIntSize_def Let_def)
  have v: "sum_list (map Coin.value [example_vtxo 100]) = 100"
    by (simp add: example_defs2)
  have p8: "VSize.fee (vsize (addP2TROutput ?est)) 1 > sum_list (map Coin.value [example_vtxo 100])"
    unfolding f v by simp
  have fails: "prepareUnrollTransaction example_lib (Number 1) ?w [''vtxo''] ''dest''
        = Inl FeeGreaterThanTotalAmount"
  proof -
    have prem: "getChainTip (onchainProvider ?w) = Inr ?tip
      \<and> getVtxos ?w = Inr [example_vtxo 100]
      \<and> [example_vtxo 100] = filter (\<lambda>vtxo. txid vtxo \<in> set [''vtxo'']) [example_vtxo 100]
      \<and> [example_vtxo 100] \<noteq> []
      \<and> vtxo_loop ?w ?tip [example_vtxo 100] ([], 0, create) = Inr (?ins, 100, ?est)
      \<and> getFeeRate (onchainProvider ?w) = Inr (Some (Number 1))
      \<and> BigInt (flooredFeeRate (Number 1) (Some (Number 1))) = Inr 1
      \<and> VSize.fee (vsize (addP2TROutput ?est)) 1 > sum_list (map Coin.value [example_vtxo 100])"
      using p1 p2 p3 p4 p5 p6 p7 p8 by blast
    show ?thesis
      by (rule prepareUnroll_fee_guard [THEN conjunct1, THEN mp, OF prem])
  qed
  have ok: "prepareUnrollTransaction example_lib (Number 1) (example_unroll_wallet 1000)
              [''vtxo''] ''dest''
            = Inr ((example_tx 2)
                 \<lparr>tx_inputs := [(emptyInput ''vtxo'' 0)
                     \<lparr>tapLeafScript := [\<lparr>controlBlock = ''cb'', leafScript = ''seconds300''\<rparr>],
                      sequence := Some (0xffffffff - 1),
                      witnessUtxo := Some (''pk'', 1000)\<rparr>],
                   tx_outputs := [(''dest'', 875)]\<rparr>)"
    by (simp add: eval_prepare)
  show ?thesis
    using p1 p2 p8 fails ok by simp
qed


end
